theory Spec2Isabelle
  imports Complex_Main "HOL-Library.Word" "HOL-Library.Sublist"
begin

section \<open>Tracey: a shallow embedding of \<^verbatim>\<open>tracey.cpp\<close>\<close>

text \<open>
  The model follows \<^verbatim>\<open>src/tracey.cpp\<close> for an LP64 build: \<^verbatim>\<open>size_t\<close> and pointers are
  64-bit words, \<^verbatim>\<open>int\<close> and \<^verbatim>\<open>unsigned\<close> are 32-bit words. What the platform supplies
  (the captured call stack, symbol resolution, the temporary path, the host memory a pointer
  argument points to) is an explicit environment, and what a call does to the outside
  (console output, the report file, stores through the pointer argument) is a list of events.
  The stack-skip constants are the defaults of the source (0 and 0). The model is of one
  thread: the recursive mutex only serialises threads, and what remains of \<^verbatim>\<open>try_lock\<close> is
  the flag \<^verbatim>\<open>recursive\<close>. The calls into the C runtime are taken to succeed (\<^verbatim>\<open>fopen\<close> opens
  the report file, \<^verbatim>\<open>settings\<close> finds its symbols).
\<close>

type_synonym addr = "64 word"
type_synonym size_t = "64 word"

subsection \<open>\<^verbatim>\<open>tracey::string\<close>: safe formatting\<close>

definition LF :: string where
  "LF = [CHR 0x0A]"

definition TAB :: string where
  "TAB = [CHR 0x09]"

definition digit_char :: "nat \<Rightarrow> char" where
  "digit_char d = ''0123456789'' ! d"

text \<open>Decimal text of an unsigned number, as a \<^verbatim>\<open>std::stringstream\<close> prints it.\<close>

function show_nat :: "nat \<Rightarrow> string" where
  "show_nat n = (if n < 10 then [digit_char n] else show_nat (n div 10) @ [digit_char (n mod 10)])"
  by pat_completeness auto
termination
  by (relation "measure id") auto

declare show_nat.simps [simp del]

definition show_int :: "int \<Rightarrow> string" where
  "show_int i = (if i < 0 then ''-'' @ show_nat (nat (- i)) else show_nat (nat i))"

text \<open>
  \<^verbatim>\<open>safefmt\<close>: \<^verbatim>\<open>t[0]\<close> is the accumulator and \<^verbatim>\<open>t[1..N-1]\<close> the arguments, so \<^verbatim>\<open>N\<close> is
  one more than the number of arguments. A character whose code is at most \<^verbatim>\<open>N\<close> appends
  \<^verbatim>\<open>t[index]\<close>: the accumulator itself for code 0, and for code \<^verbatim>\<open>N\<close> a read past the
  array, which the model leaves as appending nothing (no format string of the source has
  that character).
\<close>

definition safefmt_step :: "string list \<Rightarrow> string \<Rightarrow> char \<Rightarrow> string" where
  "safefmt_step args acc c =
     (let index = (of_char c :: nat) in
      if index \<le> Suc (length args) then
        (if index = 0 then acc @ acc
         else if index \<le> length args then acc @ args ! (index - 1)
         else acc)
      else acc @ [c])"

definition safefmt :: "string \<Rightarrow> string list \<Rightarrow> string" where
  "safefmt fmt args = foldl (safefmt_step args) [] fmt"

text \<open>\<^verbatim>\<open>strings::str\<close> and \<^verbatim>\<open>strings::flat\<close>.\<close>

definition strings_str :: "string list \<Rightarrow> string \<Rightarrow> string" where
  "strings_str ss format1 =
     (if length ss = 1 then hd ss else concat (map (\<lambda>s. safefmt format1 [s]) ss))"

definition flat :: "string list \<Rightarrow> string" where
  "flat ss = strings_str ss [CHR 0x01]"

definition version :: string where
  "version = ''tracey-0.20.b''"

definition url :: string where
  "url = ''https://github.com/r-lyeh/tracey''"

subsection \<open>\<^verbatim>\<open>std::map\<close> as a key-sorted association list\<close>

fun map_set :: "'k::linorder \<Rightarrow> 'v \<Rightarrow> ('k \<times> 'v) list \<Rightarrow> ('k \<times> 'v) list" where
  "map_set k v [] = [(k, v)]"
| "map_set k v ((k', v') # m) =
     (if k < k' then (k, v) # (k', v') # m
      else if k = k' then (k, v) # m
      else (k', v') # map_set k v m)"

text \<open>\<^verbatim>\<open>std::set::insert\<close> on a sorted list without duplicates.\<close>

fun set_insert :: "'k::linorder \<Rightarrow> 'k list \<Rightarrow> 'k list" where
  "set_insert k [] = [k]"
| "set_insert k (k' # ks) =
     (if k < k' then k # k' # ks
      else if k = k' then k' # ks
      else k' # set_insert k ks)"

subsection \<open>The call-frame tree (\<^verbatim>\<open>tracey::tree\<close> with keys \<^verbatim>\<open>void *\<close> and values \<^verbatim>\<open>int\<close>)\<close>

text \<open>
  A node is its \<^verbatim>\<open>value\<close> and its children, a \<^verbatim>\<open>std::map\<close> from key to node. The
  \<^verbatim>\<open>parent\<close> pointer is only read by \<^verbatim>\<open>up\<close> and \<^verbatim>\<open>setup\<close>, which the report does not
  call. A pointer to a node inside the tree is the list of keys that leads to it.
\<close>

datatype tree = Tree (get: "32 word") (children: "(addr \<times> tree) list")

type_synonym path = "addr list"

text \<open>\<^verbatim>\<open>tree::insert\<close> (\<^verbatim>\<open>operator()\<close>): the child is created empty when absent.\<close>

definition insert_tree :: "addr \<Rightarrow> tree \<Rightarrow> tree" where
  "insert_tree k t =
     (case map_of (children t) k of
        Some c \<Rightarrow> t
      | None \<Rightarrow> Tree (get t) (map_set k (Tree 0 []) (children t)))"

text \<open>\<^verbatim>\<open>tree::set\<close>, which the templated \<^verbatim>\<open>operator=\<close> calls.\<close>

definition set_tree :: "32 word \<Rightarrow> tree \<Rightarrow> tree" where
  "set_tree v t = Tree v (children t)"

text \<open>Apply \<open>f\<close> to the node that \<open>p\<close> points to.\<close>

fun modify :: "path \<Rightarrow> (tree \<Rightarrow> tree) \<Rightarrow> tree \<Rightarrow> tree" where
  "modify [] f t = f t"
| "modify (k # ks) f t =
     Tree (get t) (map (\<lambda>kc. if fst kc = k then (fst kc, modify ks f (snd kc)) else kc) (children t))"

text \<open>The statement \<^verbatim>\<open>(*_tree)( key ) = v;\<close> on the node \<open>t\<close>.\<close>

definition assign_child :: "addr \<Rightarrow> 32 word \<Rightarrow> tree \<Rightarrow> tree" where
  "assign_child k v t = modify [k] (set_tree v) (insert_tree k t)"

text \<open>\<^verbatim>\<open>tree::recalc\<close>; the value it returns is the \<^verbatim>\<open>value\<close> of the node it returns.\<close>

fun recalc :: "tree \<Rightarrow> tree" where
  "recalc (Tree v cs) =
     (let cs' = map (\<lambda>kc. (fst kc, recalc (snd kc))) cs
      in Tree (if cs = [] then v else sum_list (map (\<lambda>kc. get (snd kc)) cs')) cs')"

text \<open>
  \<^verbatim>\<open>tree::print\<close>: one line per child, then the child's own lines one level deeper. The
  number in brackets is the size of the node being printed, so the number of siblings. A key
  that \<^verbatim>\<open>tmap\<close> lacks is undefined behaviour in the source and an empty label here.
\<close>

definition label :: "(addr \<times> string) list \<Rightarrow> addr \<Rightarrow> string" where
  "label tmap k = (case map_of tmap k of Some l \<Rightarrow> l | None \<Rightarrow> [])"

fun print :: "(addr \<times> string) list \<Rightarrow> nat \<Rightarrow> tree \<Rightarrow> string" where
  "print tmap depth (Tree v cs) =
     concat (map (\<lambda>kc.
        concat (replicate depth TAB) @ ''['' @ show_nat (length cs) @ ''] '' @ label tmap (fst kc)
          @ '' ('' @ show_int (sint (get (snd kc))) @ '')'' @ LF
          @ print tmap (Suc depth) (snd kc)) cs)"

subsection \<open>Leaks, call stacks and the container\<close>

record leak =
  leak_size :: size_t
  leak_id :: size_t

text \<open>
  \<^verbatim>\<open>callstack\<close>: \<open>frames\<close> holds the captured slots \<^verbatim>\<open>frames[0 .. num_frames-1]\<close>; the
  constructor zeroes the other slots of the array of \<^verbatim>\<open>max_frames = 128\<close>, and the default
  build never reads them.
\<close>

record callstack =
  frames :: "addr list"

definition num_frames :: "callstack \<Rightarrow> nat" where
  "num_frames cs = length (frames cs)"

text \<open>\<^verbatim>\<open>leak_full\<close>: the two pointers of an entry, \<open>None\<close> for a null pointer.\<close>

type_synonym leak_full = "leak option \<times> callstack option"

type_synonym container = "(addr \<times> leak_full) list"

record tuple =
  tuple_addr :: addr
  tuple_lk :: leak
  tuple_cs :: callstack

text \<open>
  What the platform supplies to one call of the tracer. The last three fields are the host
  memory as the tracer reaches it through its pointer argument: the \<^verbatim>\<open>int\<close> that can be read
  at an address, the \<^verbatim>\<open>tracey::string\<close> object that lives at an address, and whether a
  \<^verbatim>\<open>stats_t\<close> object lives at an address. Where there is no such object (\<open>None\<close>, \<open>False\<close>)
  the access through the cast pointer is undefined behaviour.
\<close>

record env =
  captured :: callstack
  resolve_stack_trace :: "addr list \<Rightarrow> string list"
  show_ptr :: "addr \<Rightarrow> string"
  get_temp_pathfile :: string
  settings :: string
  mem_int :: "addr \<Rightarrow> 32 word option"
  mem_string :: "addr \<Rightarrow> string option"
  mem_stats :: "addr \<Rightarrow> bool"

text \<open>\<^verbatim>\<open>container::collect_leaks\<close>, returning \<^verbatim>\<open>*wasted\<close> and the list.\<close>

fun collect_leaks :: "size_t \<Rightarrow> container \<Rightarrow> size_t \<times> tuple list" where
  "collect_leaks timestamp_id [] = (0, [])"
| "collect_leaks timestamp_id ((my_address, my_leak, my_callstack) # rest) =
     (let (wasted, list) = collect_leaks timestamp_id rest in
      case (my_leak, my_callstack) of
        (Some l, Some c) \<Rightarrow>
          if leak_id l \<ge> timestamp_id
          then (leak_size l + wasted, \<lparr>tuple_addr = my_address, tuple_lk = l, tuple_cs = c\<rparr> # list)
          else (wasted, list)
      | _ \<Rightarrow> (wasted, list))"

text \<open>
  The score. \<^verbatim>\<open>leaks_pct\<close> is a \<^verbatim>\<open>double\<close> in the source; the model computes it exactly.
  Both operands are counts of map entries, and the thresholds are quarters, so the rounding
  of the one division cannot move a quotient across a threshold for any map of fewer than
  \<open>2^48\<close> entries.
\<close>

definition leaks_pct :: "nat \<Rightarrow> nat \<Rightarrow> real" where
  "leaks_pct n_leak map_size = (if map_size \<noteq> 0 then real n_leak * 100 / real map_size else 0)"

definition score_of :: "real \<Rightarrow> string" where
  "score_of pct =
     (let score = ''perfect!'';
          score = (if pct > 0 then ''excellent'' else score);
          score = (if pct > 1.25 then ''good'' else score);
          score = (if pct > 2.5 then ''poor'' else score);
          score = (if pct > 5 then ''mediocre'' else score);
          score = (if pct > 10 then ''lame'' else score)
      in score)"

text \<open>The keys of the two branches of the report tree: \<^verbatim>\<open>(void *)((~0)-0)\<close> and \<^verbatim>\<open>(void *)((~0)-1)\<close>.\<close>

definition bottom_top :: addr where
  "bottom_top = - 1"

definition top_bottom :: addr where
  "top_bottom = - 2"

text \<open>
  One round of the inner loop of \<^verbatim>\<open>_report\<close>, for the index \<open>i\<close>: the state is the tree, the
  set of frames, and the two cursors \<^verbatim>\<open>_tree\<close> and \<^verbatim>\<open>_tree_inv\<close>. The value stored in a node
  is the leak's size converted to \<^verbatim>\<open>int\<close>.
\<close>

definition frame_step ::
  "callstack \<Rightarrow> size_t \<Rightarrow> tree \<times> addr list \<times> path \<times> path \<Rightarrow> nat \<Rightarrow> tree \<times> addr list \<times> path \<times> path" where
  "frame_step c sz st i =
     (case st of (tree, fset, cur, cur_inv) \<Rightarrow>
      let start = 0;
          end = num_frames c - 1;
          f = frames c ! (start + i);
          tree = modify cur (assign_child f (ucast sz)) tree;
          cur = cur @ [f];
          fset = set_insert f fset;
          g = frames c ! (end - i);
          tree = modify cur_inv (assign_child g (ucast sz)) tree;
          cur_inv = cur_inv @ [g];
          fset = set_insert g fset
      in (tree, fset, cur, cur_inv))"

text \<open>The body of the outer loop, for one leak.\<close>

definition leak_step :: "tree \<times> addr list \<Rightarrow> tuple \<Rightarrow> tree \<times> addr list" where
  "leak_step st t =
     (case st of (tree, fset) \<Rightarrow>
      if num_frames (tuple_cs t) \<noteq> 0 then
        (case foldl (frame_step (tuple_cs t) (leak_size (tuple_lk t))) (tree, fset, [bottom_top], [top_bottom])
                [0 ..< num_frames (tuple_cs t)] of
           (tree', fset', cur, cur_inv) \<Rightarrow> (tree', fset'))
      else (tree, fset))"

definition build_trees :: "tuple list \<Rightarrow> tree \<times> addr list" where
  "build_trees filtered =
     foldl leak_step (insert_tree top_bottom (insert_tree bottom_top (Tree 0 [])), []) filtered"

subsection \<open>\<^verbatim>\<open>container::_report\<close>\<close>

definition says :: string where
  "says = ''<tracey/tracey.cpp> says: ''"

text \<open>What \<^verbatim>\<open>_report\<close> returns, what it writes to the file it opens, and what it prints.\<close>

record report_out =
  logfile :: string
  file_text :: string
  console :: "string list"

text \<open>
  The map \<^verbatim>\<open>translate\<close> from frame to label: the resolved symbols when there is one for
  each frame, else the printed pointers; then the labels of the two branches.
\<close>

definition make_translate :: "env \<Rightarrow> addr list \<Rightarrow> string list \<Rightarrow> (addr \<times> string) list" where
  "make_translate e frs symbols =
     (let translate =
            (if length frs \<noteq> length symbols
             then foldl (\<lambda>tr f. map_set f (safefmt [CHR 0x01] [show_ptr e f]) tr) [] frs
             else foldl (\<lambda>tr fs. map_set (fst fs) (snd fs) tr) [] (zip frs symbols));
          translate = map_set bottom_top ''bottom-top normal tree (useful to find leak endings)'' translate;
          translate = map_set top_bottom ''top-bottom normal tree (useful to find leak beginnings)'' translate
      in translate)"

text \<open>The part of \<^verbatim>\<open>_report\<close> between header and footer: console lines and file text.\<close>

definition report_body :: "env \<Rightarrow> nat \<Rightarrow> tree \<Rightarrow> addr list \<Rightarrow> string list \<times> string" where
  "report_body e n_leak tree fset =
     (if length fset = 0 then
        (if n_leak \<noteq> 0
         then ([says @ ''error! failed to resolve symbols.'' @ LF], [])
         else ([], []))
      else
        (let symbols = resolve_stack_trace e fset;
             err = (if length fset \<noteq> length symbols
                    then safefmt (says @ ''error! cannot resolve all frames ('' @ [CHR 0x01] @ '' vs ''
                                    @ [CHR 0x02] @ '')!'' @ LF)
                           [show_nat (length fset), show_nat (length symbols)]
                    else []);
             translate = make_translate e fset symbols
         in ([safefmt (says @ ''resolving '' @ [CHR 0x01] @ '' unique frames...'' @ LF) [show_nat (length fset)],
              says @ ''converting tree of frames into tree of symbols...'' @ LF,
              says @ ''flattering tree of symbols...'' @ LF],
             err @ print translate 0 (recalc tree))))"

definition report_header :: "nat \<Rightarrow> size_t \<Rightarrow> string \<Rightarrow> string" where
  "report_header n_leak wasted score =
     ''<html><body><xmp>''
     @ safefmt (says @ ''generated with '' @ [CHR 0x01] @ '' ('' @ [CHR 0x02] @ '')'' @ LF) [version, url]
     @ says @ ''best viewed on foldable text editor (like SublimeText2) with tabs=2sp and no word-wrap'' @ LF
     @ safefmt (says @ [CHR 0x01] @ '', '' @ [CHR 0x02] @ '' leaks found; '' @ [CHR 0x03]
                 @ '' bytes wasted ('' @ [CHR 0x27, CHR 0x04, CHR 0x27] @ '' score)'' @ LF)
         [if n_leak = 0 then ''ok'' else ''error'', show_nat n_leak, show_nat (unat wasted), score]"

text \<open>The score that \<^verbatim>\<open>_report\<close> computes: \<^verbatim>\<open>n_leak\<close> against \<^verbatim>\<open>this->size()\<close>.\<close>

definition report_score :: "size_t \<Rightarrow> container \<Rightarrow> string" where
  "report_score timestamp_id m =
     score_of (leaks_pct (length (snd (collect_leaks timestamp_id m))) (length m))"

definition container_report :: "env \<Rightarrow> size_t \<Rightarrow> container \<Rightarrow> report_out" where
  "container_report e timestamp_id m =
     (case collect_leaks timestamp_id m of (wasted, filtered) \<Rightarrow>
      let n_leak = length filtered;
          score = report_score timestamp_id m
      in case build_trees filtered of (tree, fset) \<Rightarrow>
         case report_body e n_leak tree fset of (body_console, body_text) \<Rightarrow>
           \<lparr> logfile = get_temp_pathfile e @ ''xxx-tracey.html'',
             file_text = report_header n_leak wasted score @ body_text @ ''</xmp></body></html>'',
             console =
               [says @ ''filtering leaks...'' @ LF,
                safefmt (says @ ''found '' @ [CHR 0x01] @ '' leaks wasting '' @ [CHR 0x02] @ '' bytes'' @ LF)
                  [show_nat n_leak, show_nat (unat wasted)],
                says @ ''creating trees of frames...'' @ LF]
               @ body_console \<rparr>)"

subsection \<open>The registry and the tracer\<close>

text \<open>
  Modelled from the spec: \<^verbatim>\<open>stats_t\<close> is declared in \<^verbatim>\<open>tracey.hpp\<close>, which is not among the
  sources. The tracer uses its members \<^verbatim>\<open>leaks\<close>, \<^verbatim>\<open>usage\<close> and \<^verbatim>\<open>peak\<close> (the spec's
  \<open>live_count\<close>, \<open>live_bytes\<close> and \<open>peak_bytes\<close>), taken to be of type \<^verbatim>\<open>size_t\<close>, and the
  value \<^verbatim>\<open>stats_t()\<close>, which is all zero ("zero counters").
\<close>

record stats_t =
  leaks :: size_t
  usage :: size_t
  peak :: size_t

definition stats_t0 :: stats_t where
  "stats_t0 = \<lparr> leaks = 0, usage = 0, peak = 0 \<rparr>"

text \<open>The build-time switches that the tracer tests.\<close>

record config =
  kTraceyEnabled :: bool
  kTraceyWebserver :: bool
  kTraceyReportWildPointers :: bool

definition default_config :: config where
  "default_config = \<lparr> kTraceyEnabled = True, kTraceyWebserver = True, kTraceyReportWildPointers = False \<rparr>"

text \<open>
  The state of the process: whether the global \<^verbatim>\<open>mutex\<close> pointer is set, the members
  \<^verbatim>\<open>recursive\<close> and \<^verbatim>\<open>map\<close> of the \<^verbatim>\<open>custom_mutex\<close>, the globals \<^verbatim>\<open>stats\<close> and
  \<^verbatim>\<open>timestamp_id\<close>, the static counter of \<^verbatim>\<open>create_id\<close> and the static flag \<^verbatim>\<open>once\<close>.
\<close>

record state =
  mutex :: bool
  recursive :: bool
  cmap :: container
  stats :: stats_t
  timestamp_id :: size_t
  id_static :: size_t
  once :: bool

text \<open>The state after the \<^verbatim>\<open>custom_mutex\<close> has been constructed by the first call.\<close>

definition init_state :: state where
  "init_state = \<lparr> mutex = True, recursive = False, cmap = [], stats = stats_t0,
                  timestamp_id = 0, id_static = 0, once = False \<rparr>"

text \<open>
  What a call does to the outside. \<open>Fault\<close> is an access through the pointer argument where
  no object of the type lives: undefined behaviour, in practice a segmentation fault. The call
  does not return from it, and nothing follows it.
\<close>

datatype event =
    Printf string
  | FileWritten string string
  | ViewReport string
  | StoreStats addr stats_t
  | StoreString addr string
  | StartWebserver
  | Fault

definition create_id :: "state \<Rightarrow> size_t \<times> state" where
  "create_id s = (id_static s + 1, s\<lparr> id_static := id_static s + 1 \<rparr>)"

definition try_lock :: "state \<Rightarrow> state option" where
  "try_lock s = (if recursive s then None else Some (s\<lparr> recursive := True \<rparr>))"

definition unlock :: "state \<Rightarrow> state" where
  "unlock s = s\<lparr> recursive := False \<rparr>"

text \<open>\<^verbatim>\<open>callstack::str\<close> with \<^verbatim>\<open>skip_begin = 0\<close>.\<close>

definition callstack_str :: "env \<Rightarrow> callstack \<Rightarrow> string \<Rightarrow> string list" where
  "callstack_str e c format12 =
     map (\<lambda>is. safefmt format12 [show_nat (fst is + 1), snd is])
       (enumerate 0 (resolve_stack_trace e (frames c)))"

definition wild_pointer_message :: "env \<Rightarrow> string" where
  "wild_pointer_message e =
     says @ ''Error, wild pointer deallocation.'' @ LF
     @ flat (callstack_str e (captured e) (TAB @ [CHR 0x01] @ '') '' @ [CHR 0x02] @ LF))"

text \<open>The branches of the tracer; each returns the pointer, the size, the events and the state.\<close>

type_synonym outcome = "addr \<times> size_t \<times> event list \<times> state"

definition free_branch :: "config \<Rightarrow> env \<Rightarrow> addr \<Rightarrow> size_t \<Rightarrow> state \<Rightarrow> outcome" where
  "free_branch cfg e ptr sz s =
     (case map_of (cmap s) ptr of
        Some map_ptr \<Rightarrow>
          (let st = (case fst map_ptr of
                       Some l \<Rightarrow> (stats s)\<lparr> leaks := leaks (stats s) - 1,
                                            usage := usage (stats s) - leak_size l \<rparr>
                     | None \<Rightarrow> stats s)
           in (ptr, sz, [], s\<lparr> cmap := map_set ptr (None, None) (cmap s), stats := st \<rparr>))
      | None \<Rightarrow>
          (0, sz, if kTraceyReportWildPointers cfg then [Printf (wild_pointer_message e)] else [], s))"

definition control_branch :: "env \<Rightarrow> addr \<Rightarrow> size_t \<Rightarrow> state \<Rightarrow> outcome" where
  "control_branch e ptr sz s =
     (case mem_int e ptr of
        None \<Rightarrow> (ptr, sz, [Fault], s)
      | Some code \<Rightarrow>
          (let s1 = (if code = 1
                     then (case create_id (s\<lparr> stats := stats_t0, cmap := [] \<rparr>) of
                             (i, s') \<Rightarrow> s'\<lparr> timestamp_id := i \<rparr>)
                     else s)
           in (ptr, sz,
               if code = 2 then (if mem_stats e ptr then [StoreStats ptr (stats s1)] else [Fault]) else [],
               s1)))"

definition size_branch :: "addr \<Rightarrow> size_t \<Rightarrow> state \<Rightarrow> outcome" where
  "size_branch ptr sz s =
     (case map_of (cmap s) ptr of
        Some map_ptr \<Rightarrow>
          (case fst map_ptr of
             Some l \<Rightarrow> (ptr, leak_size l, [], s)
           | None \<Rightarrow> (ptr, 0, [], s))
      | None \<Rightarrow> (0, 0, [], s))"

text \<open>The report is made, and its file written, before the result is assigned through the pointer.\<close>

definition report_branch :: "env \<Rightarrow> addr \<Rightarrow> size_t \<Rightarrow> state \<Rightarrow> outcome" where
  "report_branch e ptr sz s =
     (let r = container_report e (timestamp_id s) (cmap s)
      in (ptr, sz,
          map Printf (console r)
          @ [FileWritten (logfile r) (file_text r),
             case mem_string e ptr of Some str \<Rightarrow> StoreString ptr (logfile r) | None \<Rightarrow> Fault],
          s))"

definition view_branch :: "env \<Rightarrow> addr \<Rightarrow> size_t \<Rightarrow> state \<Rightarrow> outcome" where
  "view_branch e ptr sz s =
     (ptr, sz, [case mem_string e ptr of Some str \<Rightarrow> ViewReport str | None \<Rightarrow> Fault], s)"

definition alloc_branch :: "env \<Rightarrow> addr \<Rightarrow> size_t \<Rightarrow> state \<Rightarrow> outcome" where
  "alloc_branch e ptr sz s =
     (case create_id s of (i, s1) \<Rightarrow>
      let m = map_set ptr (Some \<lparr> leak_size = sz, leak_id = i \<rparr>, Some (captured e)) (cmap s1);
          st = (stats s1)\<lparr> leaks := leaks (stats s1) + 1, usage := usage (stats s1) + sz \<rparr>;
          st = (if usage st > peak st then st\<lparr> peak := usage st \<rparr> else st)
      in (ptr, sz, [], s1\<lparr> cmap := m, stats := st \<rparr>))"

text \<open>The chain of tests on \<^verbatim>\<open>size\<close>; \<^verbatim>\<open>~0\<close> converted to \<^verbatim>\<open>size_t\<close> is the word \<open>- 1\<close>.\<close>

definition dispatch :: "config \<Rightarrow> env \<Rightarrow> addr \<Rightarrow> size_t \<Rightarrow> state \<Rightarrow> outcome" where
  "dispatch cfg e ptr sz s =
     (if sz = - 1 then free_branch cfg e ptr sz s
      else if sz = - 1 - 1 then control_branch e ptr sz s
      else if sz = - 1 - 2 then size_branch ptr sz s
      else if sz = - 1 - 3 then report_branch e ptr sz s
      else if sz = - 1 - 4 then view_branch e ptr sz s
      else alloc_branch e ptr sz s)"

text \<open>The first locked call prints the settings and starts the web server thread.\<close>

definition webserver_once :: "config \<Rightarrow> env \<Rightarrow> state \<Rightarrow> event list \<times> state" where
  "webserver_once cfg e s =
     (if kTraceyWebserver cfg \<and> \<not> once s
      then ([Printf (settings e), StartWebserver], s\<lparr> once := True \<rparr>)
      else ([], s))"

text \<open>
  The tracer from the point where it holds the lock: the first-call block, the branch, then
  \<^verbatim>\<open>unlock\<close>. A branch that faults never reaches \<^verbatim>\<open>unlock\<close>: the outcome is then the pointer,
  the size and the state at the fault, with the lock still held.
\<close>

definition locked :: "config \<Rightarrow> env \<Rightarrow> (state \<Rightarrow> outcome) \<Rightarrow> state \<Rightarrow> outcome" where
  "locked cfg e branch s1 =
     (case webserver_once cfg e s1 of (ev0, s2) \<Rightarrow>
      case branch s2 of (ptr', sz', ev, s3) \<Rightarrow>
        (ptr', sz', ev0 @ ev, if Fault \<in> set ev then s3 else unlock s3))"

definition tracer :: "config \<Rightarrow> env \<Rightarrow> addr \<Rightarrow> size_t \<Rightarrow> state \<Rightarrow> outcome" where
  "tracer cfg e ptr sz s =
     (if \<not> kTraceyEnabled cfg then (ptr, 0, [], s)
      else if ptr = 0 then (ptr, 0, [], s)
      else if \<not> mutex s then (ptr, 0, [], s)
      else case try_lock s of
             None \<Rightarrow> (ptr, 0, [], s)
           | Some s1 \<Rightarrow> locked cfg e (dispatch cfg e ptr sz) s1)"

subsection \<open>The public operations\<close>

text \<open>
  Each returns its result, the events and the new state. A local variable whose address is
  passed to the tracer is given by that address; what the tracer stores through the pointer
  is read back from the events.
\<close>

definition watch :: "config \<Rightarrow> env \<Rightarrow> addr \<Rightarrow> size_t \<Rightarrow> state \<Rightarrow> addr \<times> event list \<times> state" where
  "watch cfg e ptr sz s = (case tracer cfg e ptr sz s of (p, z, ev, s') \<Rightarrow> (ptr, ev, s'))"

definition forget :: "config \<Rightarrow> env \<Rightarrow> addr \<Rightarrow> state \<Rightarrow> addr \<times> event list \<times> state" where
  "forget cfg e ptr s = (case tracer cfg e ptr (- 1) s of (p, z, ev, s') \<Rightarrow> (ptr, ev, s'))"

text \<open>
  \<^verbatim>\<open>restart\<close>: the local \<^verbatim>\<open>opcode\<close>, a \<^verbatim>\<open>size_t\<close> of value 1 at address \<open>a\<close>, is read by the
  tracer as an \<^verbatim>\<open>int\<close>, which is 1 on a little-endian machine.
\<close>

definition restart :: "config \<Rightarrow> env \<Rightarrow> addr \<Rightarrow> state \<Rightarrow> event list \<times> state" where
  "restart cfg e a s =
     (case tracer cfg (e\<lparr> mem_int := (mem_int e)(a \<mapsto> 1) \<rparr>) a (- 1 - 1) s of
        (p, z, ev, s') \<Rightarrow> (ev, s'))"

fun stored_stats :: "addr \<Rightarrow> stats_t \<Rightarrow> event list \<Rightarrow> stats_t" where
  "stored_stats a st [] = st"
| "stored_stats a st (StoreStats b v # evs) = stored_stats a (if a = b then v else st) evs"
| "stored_stats a st (ev # evs) = stored_stats a st evs"

fun stored_string :: "addr \<Rightarrow> string \<Rightarrow> event list \<Rightarrow> string" where
  "stored_string a str [] = str"
| "stored_string a str (StoreString b v # evs) = stored_string a (if a = b then v else str) evs"
| "stored_string a str (ev # evs) = stored_string a str evs"

text \<open>
  \<^verbatim>\<open>summary\<close>: the local \<^verbatim>\<open>st\<close> lives at address \<open>a\<close> and holds \<open>st0\<close> after its
  declaration; the special function passed is \<^verbatim>\<open>(~0) - 2\<close>.
\<close>

definition summary :: "config \<Rightarrow> env \<Rightarrow> addr \<Rightarrow> stats_t \<Rightarrow> state \<Rightarrow> stats_t \<times> event list \<times> state" where
  "summary cfg e a st0 s =
     (case tracer cfg (e\<lparr> mem_stats := (mem_stats e)(a := True) \<rparr>) a (- 1 - 2) s of
        (p, z, ev, s') \<Rightarrow> (stored_stats a st0 ev, ev, s'))"

text \<open>\<^verbatim>\<open>report\<close>: the local \<^verbatim>\<open>rep\<close>, an empty string at address \<open>a\<close>.\<close>

definition report :: "config \<Rightarrow> env \<Rightarrow> addr \<Rightarrow> state \<Rightarrow> string \<times> event list \<times> state" where
  "report cfg e a s =
     (case tracer cfg (e\<lparr> mem_string := (mem_string e)(a \<mapsto> []) \<rparr>) a (- 1 - 3) s of
        (p, z, ev, s') \<Rightarrow> (stored_string a [] ev, ev, s'))"

text \<open>\<^verbatim>\<open>view\<close>: the local \<^verbatim>\<open>rep\<close>, a copy of the argument at address \<open>a\<close>.\<close>

definition view :: "config \<Rightarrow> env \<Rightarrow> addr \<Rightarrow> string \<Rightarrow> state \<Rightarrow> event list \<times> state" where
  "view cfg e a rep s =
     (case tracer cfg (e\<lparr> mem_string := (mem_string e)(a \<mapsto> rep) \<rparr>) a (- 1 - 4) s of
        (p, z, ev, s') \<Rightarrow> (ev, s'))"

text \<open>The files that a list of events wrote: path and text.\<close>

fun written :: "event list \<Rightarrow> (string \<times> string) list" where
  "written [] = []"
| "written (FileWritten path text # evs) = (path, text) # written evs"
| "written (ev # evs) = written evs"

subsection \<open>Reading the tree of a report\<close>

text \<open>The branch of the report tree under a key, and the sum of \<^verbatim>\<open>value\<close> over the direct children of a node.\<close>

definition branch :: "addr \<Rightarrow> tree \<Rightarrow> tree" where
  "branch k t = (case map_of (children t) k of Some b \<Rightarrow> b | None \<Rightarrow> Tree 0 [])"

definition children_sum :: "tree \<Rightarrow> 32 word" where
  "children_sum t = sum_list (map (\<lambda>kc. get (snd kc)) (children t))"

text \<open>
  What one cursor of the inner loop does to its branch over a whole stack: an assignment
  at each frame of the path, each one level deeper.
\<close>

fun credit :: "path \<Rightarrow> 32 word \<Rightarrow> tree \<Rightarrow> tree" where
  "credit [] v t = t"
| "credit (f # fs) v t = modify [f] (credit fs v) (assign_child f v t)"

definition credit_leak :: "tree \<Rightarrow> tuple \<Rightarrow> tree" where
  "credit_leak b t = credit (frames (tuple_cs t)) (ucast (leak_size (tuple_lk t))) b"

definition credit_leak_inv :: "tree \<Rightarrow> tuple \<Rightarrow> tree" where
  "credit_leak_inv b t = credit (rev (frames (tuple_cs t))) (ucast (leak_size (tuple_lk t))) b"

text \<open>A list of paths with their values credited one after the other.\<close>

definition credit_all :: "tree \<Rightarrow> (path \<times> 32 word) list \<Rightarrow> tree" where
  "credit_all t pvs = foldl (\<lambda>b pv. credit (fst pv) (snd pv) b) t pvs"

text \<open>The children of a node with \<open>g\<close> applied to the child under the key \<open>f\<close>.\<close>

definition upd :: "addr \<Rightarrow> (tree \<Rightarrow> tree) \<Rightarrow> (addr \<times> tree) list \<Rightarrow> (addr \<times> tree) list" where
  "upd f g cs = map (\<lambda>kc. if fst kc = f then (fst kc, g (snd kc)) else kc) cs"

text \<open>The value that \<^verbatim>\<open>recalc\<close> gives a node, and the sum of these over its children.\<close>

fun lsum :: "tree \<Rightarrow> 32 word" where
  "lsum (Tree v cs) = (if cs = [] then v else sum_list (map (\<lambda>kc. lsum (snd kc)) cs))"

definition csum :: "tree \<Rightarrow> 32 word" where
  "csum t = sum_list (map (\<lambda>kc. lsum (snd kc)) (children t))"

text \<open>The keys of the children of every node are distinct, as in a \<^verbatim>\<open>std::map\<close>.\<close>

fun wf_tree :: "tree \<Rightarrow> bool" where
  "wf_tree (Tree v cs) = (distinct (map fst cs) \<and> (\<forall>kc \<in> set cs. wf_tree (snd kc)))"

text \<open>
  A path is fresh in a tree when it leaves the tree at some node after passing only nodes
  that have children: it ends at no node of the tree and passes through no leaf.
\<close>

fun fresh :: "path \<Rightarrow> tree \<Rightarrow> bool" where
  "fresh [] t = False"
| "fresh (f # fs) t =
     (case map_of (children t) f of
        None \<Rightarrow> True
      | Some c \<Rightarrow> children c \<noteq> [] \<and> fresh fs c)"

text \<open>No path of the list is equal to, or the beginning of, another one.\<close>

fun prefix_free :: "path list \<Rightarrow> bool" where
  "prefix_free [] = True"
| "prefix_free (p # ps) = (list_all (\<lambda>q. \<not> prefix p q \<and> \<not> prefix q p) ps \<and> prefix_free ps)"

text \<open>The leaks that reach the trees: those with at least one captured frame.\<close>

definition contributing :: "tuple list \<Rightarrow> tuple list" where
  "contributing ts = filter (\<lambda>t. num_frames (tuple_cs t) \<noteq> 0) ts"

text \<open>A leak at an address, of a size, with a captured stack.\<close>

definition mk_leak :: "addr \<Rightarrow> size_t \<Rightarrow> addr list \<Rightarrow> tuple" where
  "mk_leak a sz fs =
     \<lparr> tuple_addr = a, tuple_lk = \<lparr> leak_size = sz, leak_id = 1 \<rparr>, tuple_cs = \<lparr> frames = fs \<rparr> \<rparr>"

subsection \<open>Sequences of calls\<close>

text \<open>
  A sample platform, for evaluating the model on concrete calls; its memory holds no object
  that the tracer could reach through a pointer argument.
\<close>

definition example_env :: env where
  "example_env =
     \<lparr> captured = \<lparr> frames = [0x401000, 0x402000] \<rparr>,
       resolve_stack_trace = map (\<lambda>a. ''fn''),
       show_ptr = (\<lambda>a. ''0x0''),
       get_temp_pathfile = ''/tmp/fileAbC123'',
       settings = ''tracey ready'',
       mem_int = (\<lambda>a. None),
       mem_string = (\<lambda>a. None),
       mem_stats = (\<lambda>a. False) \<rparr>"

text \<open>A call of \<^verbatim>\<open>watch\<close> or \<^verbatim>\<open>forget\<close>, and a sequence of them with the platform of each.\<close>

datatype call = Watch addr size_t | Forget addr

fun run_call :: "config \<Rightarrow> env \<Rightarrow> call \<Rightarrow> state \<Rightarrow> state" where
  "run_call cfg e (Watch p sz) s = snd (snd (watch cfg e p sz s))"
| "run_call cfg e (Forget p) s = snd (snd (forget cfg e p s))"

fun run :: "config \<Rightarrow> (env \<times> call) list \<Rightarrow> state \<Rightarrow> state" where
  "run cfg [] s = s"
| "run cfg (ec # ecs) s = run cfg ecs (run_call cfg (fst ec) (snd ec) s)"

text \<open>The entries of the container whose leak pointer is not null, in the order of the map.\<close>

fun live_records :: "container \<Rightarrow> (addr \<times> leak) list" where
  "live_records [] = []"
| "live_records ((a, Some l, c) # m) = (a, l) # live_records m"
| "live_records ((a, None, c) # m) = live_records m"

text \<open>The leak record that the registry holds for an address, if any.\<close>

definition record_of :: "container \<Rightarrow> addr \<Rightarrow> leak option" where
  "record_of m p = (case map_of m p of Some map_ptr \<Rightarrow> fst map_ptr | None \<Rightarrow> None)"

text \<open>The five special values of \<^verbatim>\<open>size\<close>: \<^verbatim>\<open>~0\<close> down to \<^verbatim>\<open>(~0) - 4\<close>.\<close>

definition sentinel :: "size_t \<Rightarrow> bool" where
  "sentinel sz = (sz = - 1 \<or> sz = - 1 - 1 \<or> sz = - 1 - 2 \<or> sz = - 1 - 3 \<or> sz = - 1 - 4)"

text \<open>
  The \<^verbatim>\<open>watch\<close> calls of a sequence that no later \<^verbatim>\<open>forget\<close> has matched, with their sizes,
  starting from the outstanding ones \<open>out\<close>.
\<close>

fun outstanding :: "(addr \<times> size_t) list \<Rightarrow> call list \<Rightarrow> (addr \<times> size_t) list" where
  "outstanding out [] = out"
| "outstanding out (Watch p sz # cs) = outstanding ((p, sz) # out) cs"
| "outstanding out (Forget p # cs) = outstanding (filter (\<lambda>ps. fst ps \<noteq> p) out) cs"

text \<open>
  A sequence of matching pairs: a \<^verbatim>\<open>watch\<close> is of a non-null address that is not outstanding,
  with a size that is not a special value, and a \<^verbatim>\<open>forget\<close> is of an outstanding address.
\<close>

fun matching :: "(addr \<times> size_t) list \<Rightarrow> call list \<Rightarrow> bool" where
  "matching out [] = True"
| "matching out (Watch p sz # cs) =
     (p \<noteq> 0 \<and> \<not> sentinel sz \<and> p \<notin> fst ` set out \<and> matching ((p, sz) # out) cs)"
| "matching out (Forget p # cs) =
     (p \<in> fst ` set out \<and> matching (filter (\<lambda>ps. fst ps \<noteq> p) out) cs)"

text \<open>
  The state after \<^verbatim>\<open>watch(a,5); restart(); watch(b,7)\<close>; \<open>ao\<close> is the address of the local
  \<^verbatim>\<open>opcode\<close> of \<^verbatim>\<open>restart\<close>.
\<close>

definition watch_reset_watch ::
  "config \<Rightarrow> env \<Rightarrow> env \<Rightarrow> env \<Rightarrow> addr \<Rightarrow> addr \<Rightarrow> addr \<Rightarrow> state \<Rightarrow> state" where
  "watch_reset_watch cfg e1 e2 e3 a ao b s =
     snd (snd (watch cfg e3 b 7 (snd (restart cfg e2 ao (snd (snd (watch cfg e1 a 5 s)))))))"

text \<open>Nine rounds of \<^verbatim>\<open>watch(0x1,8); forget(0x1)\<close> and a tenth \<^verbatim>\<open>watch(0x1,8)\<close>.\<close>

definition reuse_trace :: "(env \<times> call) list" where
  "reuse_trace =
     [(example_env, Watch 1 8), (example_env, Forget 1), (example_env, Watch 1 8), (example_env, Forget 1),
      (example_env, Watch 1 8), (example_env, Forget 1), (example_env, Watch 1 8), (example_env, Forget 1),
      (example_env, Watch 1 8), (example_env, Forget 1), (example_env, Watch 1 8), (example_env, Forget 1),
      (example_env, Watch 1 8), (example_env, Forget 1), (example_env, Watch 1 8), (example_env, Forget 1),
      (example_env, Watch 1 8), (example_env, Forget 1), (example_env, Watch 1 8)]"

text \<open>
  The registry \<open>s\<close> accounts for exactly the outstanding calls \<open>out\<close>: it is ready for a call
  at top level, the leak records of its map are those of \<open>out\<close>, with their sizes, and
  \<^verbatim>\<open>stats.usage\<close> is the sum of the sizes.
\<close>

definition tracks :: "state \<Rightarrow> (addr \<times> size_t) list \<Rightarrow> bool" where
  "tracks s out \<longleftrightarrow>
     mutex s \<and> \<not> recursive s \<and> distinct (map fst out) \<and> 0 \<notin> fst ` set out
     \<and> (\<forall>p. map_option leak_size (record_of (cmap s) p) = map_of out p)
     \<and> usage (stats s) = sum_list (map snd out)"

text \<open>Two allocations and the release of the first.\<close>

definition pairs_trace :: "(env \<times> call) list" where
  "pairs_trace = [(example_env, Watch 0x10 8), (example_env, Watch 0x20 16), (example_env, Forget 0x10)]"

text \<open>Two allocations made from one call site: the captured stacks are the same.\<close>

definition shared_site_trace :: "(env \<times> call) list" where
  "shared_site_trace = [(example_env, Watch 1 10), (example_env, Watch 2 20)]"

text \<open>
  The quality score as the specification words it: the first bucket that matches, on
  \<open>pct = 100 * leaks / total_allocations_ever\<close>, the total being the number of \<^verbatim>\<open>watch\<close> calls.
\<close>

definition spec_bucket :: "real \<Rightarrow> string" where
  "spec_bucket pct =
     (if pct = 0 then ''perfect!''
      else if pct \<le> 1.25 then ''excellent''
      else if pct \<le> 2.5 then ''good''
      else if pct \<le> 5 then ''poor''
      else if pct \<le> 10 then ''mediocre''
      else ''lame'')"

fun is_watch :: "call \<Rightarrow> bool" where
  "is_watch (Watch p sz) = True"
| "is_watch (Forget p) = False"

definition total_allocations_ever :: "call list \<Rightarrow> nat" where
  "total_allocations_ever cs = length (filter is_watch cs)"

section \<open>Properties\<close>

subsection \<open>Unfolding and the sorted association list\<close>

lemmas call_defs = watch_def forget_def tracer_def locked_def try_lock_def webserver_once_def
  dispatch_def alloc_branch_def free_branch_def control_branch_def size_branch_def
  report_branch_def view_branch_def create_id_def unlock_def

lemmas example_defs = default_config_def init_state_def stats_t0_def example_env_def

lemma map_of_map_set: "map_of (map_set k v m) = (map_of m)(k \<mapsto> v)"
  by (induction m) (auto simp: fun_eq_iff)

lemma live_records_map_set_None:
  "set (live_records (map_set p (None, c) m)) \<subseteq> set (live_records m)"
  by (induction m rule: live_records.induct) auto

lemma tracer_top:
  "kTraceyEnabled cfg \<Longrightarrow> p \<noteq> 0 \<Longrightarrow> mutex s \<Longrightarrow> \<not> recursive s \<Longrightarrow>
   tracer cfg e p sz s = locked cfg e (dispatch cfg e p sz) (s\<lparr> recursive := True \<rparr>)"
  by (simp add: tracer_def try_lock_def)

lemma sentinel_cmap:
  assumes "sentinel sz"
  shows "set (live_records (cmap (snd (snd (snd (tracer cfg e p sz s))))))
           \<subseteq> set (live_records (cmap s))"
  using assms live_records_map_set_None [of p None "cmap s"]
  by (auto simp: sentinel_def tracer_def locked_def try_lock_def webserver_once_def dispatch_def
       free_branch_def control_branch_def size_branch_def report_branch_def
       view_branch_def create_id_def unlock_def Let_def split: option.splits prod.splits if_splits)

lemma unlock_relock: "\<not> recursive s \<Longrightarrow> s\<lparr> recursive := False \<rparr> = s"
  by (cases s) simp

lemma stored_string_Printf: "stored_string a str (map Printf xs @ evs) = stored_string a str evs"
  by (induction xs) simp_all

lemma written_Printf: "written (map Printf xs @ evs) = written evs"
  by (induction xs) simp_all

lemma word_succ_ge: "(x :: 64 word) \<noteq> - 1 \<Longrightarrow> x \<le> x + 1"
  using inc_less_eq_self_iff_eq by fastforce

lemma no_fault_in_prints: "Fault \<notin> Printf ` A"
  by auto

lemma make_translate_memory:
  "make_translate (e\<lparr> mem_string := m \<rparr>) frs symbols = make_translate e frs symbols"
  by (simp add: make_translate_def cong: if_cong)

lemma report_body_memory:
  "report_body (e\<lparr> mem_string := m \<rparr>) n t fset = report_body e n t fset"
  by (simp add: report_body_def make_translate_memory Let_def cong: if_cong)

lemma container_report_memory:
  "container_report (e\<lparr> mem_string := m \<rparr>) ts c = container_report e ts c"
  by (simp add: container_report_def report_body_memory)

subsection \<open>What a call at top level does\<close>

lemma report_top:
  assumes "kTraceyEnabled cfg" and "a \<noteq> 0" and "mutex s" and "\<not> recursive s"
  shows "fst (report cfg e a s) = logfile (container_report e (timestamp_id s) (cmap s))"
    and "written (fst (snd (report cfg e a s)))
           = [(logfile (container_report e (timestamp_id s) (cmap s)),
               file_text (container_report e (timestamp_id s) (cmap s)))]"
    and "snd (snd (report cfg e a s)) = snd (webserver_once cfg e s)"
  using assms unlock_relock [of s] unlock_relock [of "s\<lparr>once := True\<rparr>"]
  by (simp_all add: report_def tracer_top locked_def dispatch_def report_branch_def
        webserver_once_def unlock_def stored_string_Printf written_Printf Let_def
        no_fault_in_prints container_report_memory)

lemma restart_top:
  assumes "kTraceyEnabled cfg" and "a \<noteq> 0" and "mutex s" and "\<not> recursive s"
  shows "snd (restart cfg e a s)
           = s\<lparr> once := once s \<or> kTraceyWebserver cfg, stats := stats_t0, cmap := [],
                id_static := id_static s + 1, timestamp_id := id_static s + 1 \<rparr>"
  using assms unlock_relock [of s]
  by (cases s) (auto simp add: restart_def tracer_top locked_def dispatch_def control_branch_def
        webserver_once_def unlock_def create_id_def)

lemma watch_top:
  assumes "kTraceyEnabled cfg" and "p \<noteq> 0" and "mutex s" and "\<not> recursive s" and "\<not> sentinel sz"
  shows "snd (snd (watch cfg e p sz s))
           = s\<lparr> once := once s \<or> kTraceyWebserver cfg,
                id_static := id_static s + 1,
                cmap := map_set p (Some \<lparr> leak_size = sz, leak_id = id_static s + 1 \<rparr>, Some (captured e))
                          (cmap s),
                stats := \<lparr> leaks = leaks (stats s) + 1, usage = usage (stats s) + sz,
                           peak = (if usage (stats s) + sz > peak (stats s)
                                   then usage (stats s) + sz else peak (stats s)) \<rparr> \<rparr>"
  using assms unlock_relock [of s]
  by (cases s, cases "stats s") (auto simp add: watch_def tracer_top locked_def dispatch_def
        alloc_branch_def webserver_once_def unlock_def create_id_def sentinel_def)

lemma watch_keeps_guards:
  assumes "\<not> sentinel sz" and "\<not> recursive s"
  shows "mutex (snd (snd (watch cfg e p sz s))) = mutex s"
    and "\<not> recursive (snd (snd (watch cfg e p sz s)))"
    and "id_static (snd (snd (watch cfg e p sz s))) = id_static s
         \<or> id_static (snd (snd (watch cfg e p sz s))) = id_static s + 1"
  using assms
  by (auto simp: watch_def tracer_def locked_def try_lock_def webserver_once_def dispatch_def
        alloc_branch_def create_id_def unlock_def sentinel_def Let_def split: prod.splits)

subsection \<open>The report of a container\<close>

lemma container_report_logfile:
  "logfile (container_report e ts m) = get_temp_pathfile e @ ''xxx-tracey.html''"
  by (simp add: container_report_def Let_def split: prod.splits)

lemma container_report_envelope:
  "prefix ''<html><body><xmp>'' (file_text (container_report e ts m))"
  "suffix ''</xmp></body></html>'' (file_text (container_report e ts m))"
  by (simp_all add: container_report_def Let_def report_header_def suffix_def split: prod.splits)

lemma report_header_empty:
  "report_header 0 0 ''perfect!'' =
     ''<html><body><xmp>'' @ says @ ''generated with tracey-0.20.b (https://github.com/r-lyeh/tracey)'' @ LF
     @ says @ ''best viewed on foldable text editor (like SublimeText2) with tabs=2sp and no word-wrap'' @ LF
     @ says @ ''ok, 0 leaks found; 0 bytes wasted ('' @ [CHR 0x27] @ ''perfect!'' @ [CHR 0x27] @ '' score)'' @ LF"
  by (simp add: report_header_def safefmt_def safefmt_step_def says_def LF_def version_def url_def
        show_nat.simps digit_char_def)

lemma report_header_one:
  "report_header 1 7 ''lame'' =
     ''<html><body><xmp>'' @ says @ ''generated with tracey-0.20.b (https://github.com/r-lyeh/tracey)'' @ LF
     @ says @ ''best viewed on foldable text editor (like SublimeText2) with tabs=2sp and no word-wrap'' @ LF
     @ says @ ''error, 1 leaks found; 7 bytes wasted ('' @ [CHR 0x27] @ ''lame'' @ [CHR 0x27] @ '' score)'' @ LF"
  by (simp add: report_header_def safefmt_def safefmt_step_def says_def LF_def version_def url_def
        show_nat.simps digit_char_def)

lemma container_report_empty:
  "container_report e ts [] =
     \<lparr> logfile = get_temp_pathfile e @ ''xxx-tracey.html'',
       file_text = report_header 0 0 ''perfect!'' @ ''</xmp></body></html>'',
       console = [says @ ''filtering leaks...'' @ LF,
                  says @ ''found 0 leaks wasting 0 bytes'' @ LF,
                  says @ ''creating trees of frames...'' @ LF] \<rparr>"
  by (simp add: container_report_def report_score_def leaks_pct_def score_of_def build_trees_def
        report_body_def safefmt_def safefmt_step_def says_def LF_def show_nat.simps digit_char_def)

lemma container_report_single:
  assumes "leak_id l \<ge> ts"
  shows "file_text (container_report e ts [(b, Some l, Some c)])
     = report_header 1 (leak_size l) ''lame''
       @ snd (report_body e 1
                (fst (build_trees [\<lparr> tuple_addr = b, tuple_lk = l, tuple_cs = c \<rparr>]))
                (snd (build_trees [\<lparr> tuple_addr = b, tuple_lk = l, tuple_cs = c \<rparr>])))
       @ ''</xmp></body></html>''"
  using assms
  by (simp add: container_report_def report_score_def leaks_pct_def score_of_def split: prod.splits)

lemma leaks_pct_nonneg: "0 \<le> leaks_pct n m"
  by (simp add: leaks_pct_def)

lemma score_of_bucket: "0 \<le> pct \<Longrightarrow> score_of pct = spec_bucket pct"
  by (simp add: score_of_def spec_bucket_def Let_def)

lemma collect_leaks_length: "length (snd (collect_leaks ts m)) \<le> length m"
  by (induction ts m rule: collect_leaks.induct) (auto split: prod.splits option.splits)

lemma reset_then_watch:
  assumes "kTraceyEnabled cfg" and "mutex s" and "\<not> recursive s" and "a \<noteq> 0" and "b \<noteq> 0"
    and "id_static s + 1 \<noteq> - 1"
  shows "collect_leaks (timestamp_id (snd (snd (watch cfg e' b 7 (snd (restart cfg e a s))))))
           (cmap (snd (snd (watch cfg e' b 7 (snd (restart cfg e a s))))))
         = (7, [\<lparr> tuple_addr = b,
                  tuple_lk = \<lparr> leak_size = 7,
                               leak_id = id_static (snd (snd (watch cfg e' b 7 (snd (restart cfg e a s))))) \<rparr>,
                  tuple_cs = captured e' \<rparr>])"
    and "mutex (snd (snd (watch cfg e' b 7 (snd (restart cfg e a s)))))"
    and "\<not> recursive (snd (snd (watch cfg e' b 7 (snd (restart cfg e a s)))))"
proof -
  let ?s1 = "snd (restart cfg e a s)"
  have s1: "?s1 = s\<lparr> once := once s \<or> kTraceyWebserver cfg, stats := stats_t0, cmap := [],
                id_static := id_static s + 1, timestamp_id := id_static s + 1 \<rparr>"
    by (rule restart_top [OF assms(1,4,2,3)])
  have g: "mutex ?s1" "\<not> recursive ?s1" using assms by (simp_all add: s1)
  have ns: "\<not> sentinel (7 :: size_t)" by (simp add: sentinel_def)
  note w = watch_top [OF assms(1,5) g ns, of e']
  show "collect_leaks (timestamp_id (snd (snd (watch cfg e' b 7 ?s1))))
           (cmap (snd (snd (watch cfg e' b 7 ?s1))))
         = (7, [\<lparr> tuple_addr = b,
                  tuple_lk = \<lparr> leak_size = 7, leak_id = id_static (snd (snd (watch cfg e' b 7 ?s1))) \<rparr>,
                  tuple_cs = captured e' \<rparr>])"
    unfolding w using word_succ_ge [OF assms(6)] by (simp add: s1)
  show "mutex (snd (snd (watch cfg e' b 7 ?s1)))" unfolding w using g by simp
  show "\<not> recursive (snd (snd (watch cfg e' b 7 ?s1)))" unfolding w using g by simp
qed

lemma reuse_trace_state:
  "run default_config reuse_trace init_state =
     \<lparr> mutex = True, recursive = False,
       cmap = [(1, Some \<lparr> leak_size = 8, leak_id = 10 \<rparr>, Some (captured example_env))],
       stats = \<lparr> leaks = 1, usage = 8, peak = 8 \<rparr>, timestamp_id = 0, id_static = 10, once = True \<rparr>"
  by (simp add: reuse_trace_def call_defs default_config_def init_state_def stats_t0_def)

subsection \<open>Sequences of matching calls\<close>

lemma record_of_map_set:
  "record_of (map_set p v m) q = (if q = p then fst v else record_of m q)"
  by (simp add: record_of_def map_of_map_set)

lemma forget_top:
  assumes "kTraceyEnabled cfg" and "p \<noteq> 0" and "mutex s" and "\<not> recursive s"
    and "map_of (cmap s) p = Some (Some l, c)"
  shows "snd (snd (forget cfg e p s))
           = s\<lparr> once := once s \<or> kTraceyWebserver cfg,
                cmap := map_set p (None, None) (cmap s),
                stats := (stats s)\<lparr> leaks := leaks (stats s) - 1, usage := usage (stats s) - leak_size l \<rparr> \<rparr>"
  using assms unlock_relock [of s]
  by (cases s) (auto simp add: forget_def tracer_top locked_def dispatch_def
        free_branch_def webserver_once_def unlock_def)

lemma sum_list_filter_key:
  fixes out :: "(addr \<times> size_t) list"
  assumes "distinct (map fst out)" and "map_of out p = Some sz"
  shows "sum_list (map snd (filter (\<lambda>ps. fst ps \<noteq> p) out)) = sum_list (map snd out) - sz"
  using assms
proof (induction out)
  case Nil
  then show ?case by simp
next
  case (Cons a out)
  show ?case
  proof (cases "fst a = p")
    case True
    then have "p \<notin> fst ` set out" using Cons.prems(1) by auto
    then have "filter (\<lambda>ps. fst ps \<noteq> p) out = out" by (auto simp: filter_id_conv)
    moreover have "snd a = sz" using True Cons.prems(2) by (cases a) simp
    ultimately show ?thesis using True by simp
  next
    case False
    then have "map_of out p = Some sz" using Cons.prems(2) by (cases a) (auto split: if_splits)
    then show ?thesis using Cons.IH Cons.prems(1) False by simp
  qed
qed

lemma map_of_filter_key:
  "map_of (filter (\<lambda>ps. fst ps \<noteq> p) out) q = (if q = p then None else map_of out q)"
  by (induction out) auto

lemma tracks_watch:
  assumes "kTraceyEnabled cfg" and "tracks s out" and "p \<noteq> 0" and "\<not> sentinel sz"
    and "p \<notin> fst ` set out"
  shows "tracks (run_call cfg e (Watch p sz) s) ((p, sz) # out)"
proof -
  have g: "mutex s" "\<not> recursive s" using assms(2) by (simp_all add: tracks_def)
  note w = watch_top [OF assms(1,3) g assms(4), of e]
  show ?thesis
    using assms(2,3,5) unfolding tracks_def run_call.simps w
    by (auto simp: record_of_map_set)
qed

lemma tracks_forget:
  assumes "kTraceyEnabled cfg" and "tracks s out" and "p \<in> fst ` set out"
  shows "tracks (run_call cfg e (Forget p) s) (filter (\<lambda>ps. fst ps \<noteq> p) out)"
proof -
  have g: "mutex s" "\<not> recursive s" and d: "distinct (map fst out)" and nz: "p \<noteq> 0"
    using assms(2,3) by (auto simp: tracks_def)
  obtain sz where sz: "map_of out p = Some sz"
    using assms(3) by (metis domD dom_map_of_conv_image_fst)
  then have "map_option leak_size (record_of (cmap s) p) = Some sz"
    using assms(2) by (simp add: tracks_def)
  then obtain l c where m: "map_of (cmap s) p = Some (Some l, c)" and l: "leak_size l = sz"
    by (auto simp: record_of_def split: option.splits)
  note f = forget_top [OF assms(1) nz g m, of e]
  show ?thesis
    using assms(2) d unfolding tracks_def run_call.simps f
    by (auto simp: record_of_map_set map_of_filter_key sum_list_filter_key [OF d sz] l distinct_map_filter)
qed

lemma tracks_run:
  assumes "kTraceyEnabled cfg"
  shows "tracks s out \<Longrightarrow> matching out (map snd ecs)
     \<Longrightarrow> tracks (run cfg ecs s) (outstanding out (map snd ecs))"
proof (induction ecs arbitrary: s out)
  case Nil
  then show ?case by simp
next
  case (Cons ec ecs)
  obtain e c where ec: "ec = (e, c)" by (cases ec)
  show ?case
  proof (cases c)
    case (Watch p sz)
    then show ?thesis
      using Cons.prems Cons.IH [OF tracks_watch [OF assms Cons.prems(1), of p sz e]] ec by simp
  next
    case (Forget p)
    then show ?thesis
      using Cons.prems Cons.IH [OF tracks_forget [OF assms Cons.prems(1), of p e]] ec by simp
  qed
qed

lemma matching_take: "matching out cs \<Longrightarrow> matching out (take n cs)"
proof (induction cs arbitrary: out n)
  case Nil
  then show ?case by simp
next
  case (Cons c cs)
  then show ?case by (cases n; cases c) auto
qed

lemma unat_sum_list:
  fixes ws :: "size_t list"
  shows "sum_list (map unat ws) < 2 ^ 64 \<Longrightarrow> unat (sum_list ws) = sum_list (map unat ws)"
proof (induction ws)
  case Nil
  then show ?case by simp
next
  case (Cons w ws)
  then have "sum_list (map unat ws) < 2 ^ 64" by simp
  then have "unat (sum_list ws) = sum_list (map unat ws)" by (rule Cons.IH)
  then show ?case using Cons.prems by (simp add: unat_word_ariths)
qed


lemma no_live_records: "live_records m = [] \<Longrightarrow> record_of m p = None"
  by (induction m rule: live_records.induct) (auto simp: record_of_def)

lemma outstanding_untouched:
  "p \<notin> fst ` set out \<Longrightarrow> \<forall>sz. Watch p sz \<notin> set cs \<Longrightarrow> p \<notin> fst ` set (outstanding out cs)"
proof (induction out cs rule: outstanding.induct)
  case (1 out)
  then show ?case by simp
next
  case (2 out q sz cs)
  then show ?case by auto
next
  case (3 out q cs)
  then show ?case by auto
qed

lemma entry_untouched:
  assumes "kTraceyEnabled cfg"
  shows "tracks s out \<Longrightarrow> matching out (map snd ecs) \<Longrightarrow> p \<notin> fst ` set out
     \<Longrightarrow> \<forall>sz. Watch p sz \<notin> set (map snd ecs)
     \<Longrightarrow> map_of (cmap (run cfg ecs s)) p = map_of (cmap s) p"
proof (induction ecs arbitrary: s out)
  case Nil
  then show ?case by simp
next
  case (Cons ec ecs)
  obtain e c where ec: "ec = (e, c)" by (cases ec)
  have g: "mutex s" "\<not> recursive s" using Cons.prems(1) by (simp_all add: tracks_def)
  show ?case
  proof (cases c)
    case (Watch q sz)
    have q: "q \<noteq> p" "q \<noteq> 0" "\<not> sentinel sz" "q \<notin> fst ` set out"
      using Cons.prems(2,4) ec Watch by auto
    have t: "tracks (run_call cfg e (Watch q sz) s) ((q, sz) # out)"
      by (rule tracks_watch [OF assms Cons.prems(1) q(2,3,4)])
    have "map_of (cmap (run cfg ecs (run_call cfg e (Watch q sz) s))) p
            = map_of (cmap (run_call cfg e (Watch q sz) s)) p"
      using Cons.IH [OF t] Cons.prems(2,3,4) ec Watch q(1) by simp
    also have "\<dots> = map_of (cmap s) p"
      using q(1) by (simp add: watch_top [OF assms q(2) g q(3)] map_of_map_set)
    finally show ?thesis using ec Watch by simp
  next
    case (Forget q)
    have q: "q \<in> fst ` set out" using Cons.prems(2) ec Forget by simp
    then have qp: "q \<noteq> p" using Cons.prems(3) by auto
    have nz: "q \<noteq> 0" using q Cons.prems(1) by (auto simp: tracks_def)
    obtain sz where sz: "map_of out q = Some sz"
      using q by (metis domD dom_map_of_conv_image_fst)
    then have "map_option leak_size (record_of (cmap s) q) = Some sz"
      using Cons.prems(1) by (simp add: tracks_def)
    then obtain l c' where m: "map_of (cmap s) q = Some (Some l, c')"
      by (auto simp: record_of_def split: option.splits)
    have t: "tracks (run_call cfg e (Forget q) s) (filter (\<lambda>ps. fst ps \<noteq> q) out)"
      by (rule tracks_forget [OF assms Cons.prems(1) q])
    have "map_of (cmap (run cfg ecs (run_call cfg e (Forget q) s))) p
            = map_of (cmap (run_call cfg e (Forget q) s)) p"
      using Cons.IH [OF t] Cons.prems(2,3,4) ec Forget by auto
    also have "\<dots> = map_of (cmap s) p"
      using qp by (simp add: forget_top [OF assms nz g m] map_of_map_set)
    finally show ?thesis using ec Forget by simp
  qed
qed

lemma run_append: "run cfg (xs @ ys) s = run cfg ys (run cfg xs s)"
  by (induction xs arbitrary: s) simp_all

lemma outstanding_append: "outstanding out (xs @ ys) = outstanding (outstanding out xs) ys"
  by (induction out xs rule: outstanding.induct) simp_all

lemma matching_append:
  "matching out (xs @ ys) = (matching out xs \<and> matching (outstanding out xs) ys)"
  by (induction out xs rule: outstanding.induct) auto

subsection \<open>The tree of a report\<close>

lemma modify_id: "modify p (\<lambda>t. t) t = t"
proof (induction p arbitrary: t)
  case Nil
  then show ?case by simp
next
  case (Cons a p)
  have "(\<lambda>kc :: addr \<times> tree. if fst kc = a then (fst kc, modify p (\<lambda>t. t) (snd kc)) else kc) = (\<lambda>kc. kc)"
    by (simp add: fun_eq_iff Cons.IH)
  then show ?case by simp
qed

lemma modify_comp: "modify p f (modify p g t) = modify p (\<lambda>t. f (g t)) t"
  by (induction p arbitrary: t) (simp_all add: comp_def if_distrib cong: if_cong)

lemma modify_Cons: "modify (k # ks) f t = modify [k] (modify ks f) t"
  by simp

lemma modify_append: "modify (p @ q) f t = modify p (modify q f) t"
  by (induction p arbitrary: t) simp_all

lemma credit_snoc: "credit (xs @ [f]) v t = modify xs (assign_child f v) (credit xs v t)"
proof (induction xs arbitrary: t)
  case Nil
  have c: "credit [] v = (\<lambda>t. t)"
    by (simp add: fun_eq_iff)
  have "credit ([] @ [f]) v t = modify [f] (credit [] v) (assign_child f v t)"
    by (simp only: append_Nil credit.simps)
  also have "\<dots> = assign_child f v t"
    unfolding c by (rule modify_id)
  finally show ?case by (simp only: credit.simps modify.simps)
next
  case (Cons x xs)
  have "credit ((x # xs) @ [f]) v t = modify [x] (credit (xs @ [f]) v) (assign_child x v t)"
    by simp
  also have "\<dots> = modify [x] (\<lambda>t. modify xs (assign_child f v) (credit xs v t)) (assign_child x v t)"
    using Cons.IH by (simp cong: map_cong)
  also have "\<dots> = modify [x] (modify xs (assign_child f v)) (modify [x] (credit xs v) (assign_child x v t))"
    by (simp only: modify_comp)
  also have "\<dots> = modify (x # xs) (assign_child f v) (credit (x # xs) v t)"
    by simp
  finally show ?case .
qed

lemma keys_distinct: "top_bottom \<noteq> bottom_top"
  by (simp add: top_bottom_def bottom_top_def)

lemma frame_loop:
  assumes "k \<le> length (frames c)"
  shows "\<exists>S'. foldl (frame_step c sz) (Tree r [(top_bottom, X), (bottom_top, Y)], S, [bottom_top], [top_bottom]) [0..<k]
     = (Tree r [(top_bottom, credit (take k (rev (frames c))) (ucast sz) X),
                (bottom_top, credit (take k (frames c)) (ucast sz) Y)],
        S', bottom_top # take k (frames c), top_bottom # take k (rev (frames c)))"
  using assms
proof (induction k)
  case 0
  then show ?case by simp
next
  case (Suc k)
  then have k: "k < length (frames c)" by simp
  from Suc obtain S' where IH:
    "foldl (frame_step c sz) (Tree r [(top_bottom, X), (bottom_top, Y)], S, [bottom_top], [top_bottom]) [0..<k]
     = (Tree r [(top_bottom, credit (take k (rev (frames c))) (ucast sz) X),
                (bottom_top, credit (take k (frames c)) (ucast sz) Y)],
        S', bottom_top # take k (frames c), top_bottom # take k (rev (frames c)))"
    by auto
  have t1: "take (Suc k) (frames c) = take k (frames c) @ [frames c ! k]"
    using k by (simp add: take_Suc_conv_app_nth)
  have t2: "take (Suc k) (rev (frames c)) = take k (rev (frames c)) @ [frames c ! (length (frames c) - 1 - k)]"
    using k by (simp add: take_Suc_conv_app_nth rev_nth)
  show ?case
    unfolding upt_Suc_append [OF le0] foldl_append IH
    using keys_distinct
    by (simp add: frame_step_def num_frames_def t1 t2 credit_snoc Let_def del: credit.simps cong: if_cong)
qed

lemma leak_step_credit:
  "\<exists>S'. leak_step (Tree r [(top_bottom, X), (bottom_top, Y)], S) t
     = (Tree r [(top_bottom, credit_leak_inv X t), (bottom_top, credit_leak Y t)], S')"
proof (cases "num_frames (tuple_cs t) = 0")
  case True
  then show ?thesis by (simp add: leak_step_def num_frames_def credit_leak_def credit_leak_inv_def)
next
  case False
  obtain S' where
    "foldl (frame_step (tuple_cs t) (leak_size (tuple_lk t)))
        (Tree r [(top_bottom, X), (bottom_top, Y)], S, [bottom_top], [top_bottom])
        [0..<length (frames (tuple_cs t))]
     = (Tree r [(top_bottom, credit (take (length (frames (tuple_cs t))) (rev (frames (tuple_cs t))))
                               (ucast (leak_size (tuple_lk t))) X),
                (bottom_top, credit (take (length (frames (tuple_cs t))) (frames (tuple_cs t)))
                               (ucast (leak_size (tuple_lk t))) Y)],
        S', bottom_top # take (length (frames (tuple_cs t))) (frames (tuple_cs t)),
        top_bottom # take (length (frames (tuple_cs t))) (rev (frames (tuple_cs t))))"
    using frame_loop [OF le_refl, of "tuple_cs t" "leak_size (tuple_lk t)" r X Y S] by blast
  then show ?thesis
    using False by (simp add: leak_step_def num_frames_def credit_leak_def credit_leak_inv_def)
qed

lemma leaks_loop_credit:
  "\<exists>S'. foldl leak_step (Tree r [(top_bottom, X), (bottom_top, Y)], S) ts
     = (Tree r [(top_bottom, foldl credit_leak_inv X ts), (bottom_top, foldl credit_leak Y ts)], S')"
proof (induction ts arbitrary: X Y S)
  case Nil
  then show ?case by simp
next
  case (Cons t ts)
  obtain S1 where "leak_step (Tree r [(top_bottom, X), (bottom_top, Y)], S) t
     = (Tree r [(top_bottom, credit_leak_inv X t), (bottom_top, credit_leak Y t)], S1)"
    using leak_step_credit by blast
  then show ?case using Cons.IH [of "credit_leak_inv X t" "credit_leak Y t" S1] by simp
qed

lemma build_trees_credit:
  "fst (build_trees ts)
     = Tree 0 [(top_bottom, foldl credit_leak_inv (Tree 0 []) ts), (bottom_top, foldl credit_leak (Tree 0 []) ts)]"
proof -
  have "insert_tree top_bottom (insert_tree bottom_top (Tree 0 []))
          = Tree 0 [(top_bottom, Tree 0 []), (bottom_top, Tree 0 [])]"
    by (simp add: insert_tree_def top_bottom_def bottom_top_def)
  then show ?thesis
    using leaks_loop_credit [of 0 "Tree 0 []" "Tree 0 []" "[]" ts]
    by (auto simp: build_trees_def)
qed

lemma get_recalc: "get (recalc t) = lsum t"
proof (induction t rule: lsum.induct)
  case (1 v cs)
  show ?case
  proof (cases "cs = []")
    case True
    then show ?thesis by simp
  next
    case False
    have "map (\<lambda>kc. get (snd (fst kc, recalc (snd kc)))) cs = map (\<lambda>kc. lsum (snd kc)) cs"
      by (rule map_cong) (use 1 False in auto)
    then have e: "sum_list (map (\<lambda>kc. get (snd kc)) (map (\<lambda>kc. (fst kc, recalc (snd kc))) cs))
                 = sum_list (map (\<lambda>kc. lsum (snd kc)) cs)"
      unfolding map_map comp_def by (rule arg_cong)
    show ?thesis using False by (simp add: Let_def e del: map_map)
  qed
qed

lemma children_recalc: "children (recalc t) = map (\<lambda>kc. (fst kc, recalc (snd kc))) (children t)"
  by (cases t) (simp add: Let_def)

lemma children_sum_recalc: "children_sum (recalc t) = csum t"
  by (simp add: children_sum_def csum_def children_recalc comp_def get_recalc)

lemma branch_recalc: "branch k (recalc t) = recalc (branch k t)"
proof -
  have "map_of (map (\<lambda>kc. (fst kc, recalc (snd kc))) cs) k = map_option recalc (map_of cs k)" for cs
    by (induction cs) auto
  then show ?thesis
    by (simp add: branch_def children_recalc split: option.splits)
qed

lemma branch_sums:
  "children_sum (branch bottom_top (recalc (fst (build_trees ts)))) = csum (foldl credit_leak (Tree 0 []) ts)"
  "children_sum (branch top_bottom (recalc (fst (build_trees ts)))) = csum (foldl credit_leak_inv (Tree 0 []) ts)"
  using keys_distinct
  by (simp_all add: branch_recalc children_sum_recalc build_trees_credit branch_def)

lemma map_of_upd: "map_of (upd f g cs) k = (if k = f then map_option g (map_of cs f) else map_of cs k)"
  by (induction cs) (auto simp: upd_def)

lemma keys_upd: "map fst (upd f g cs) = map fst cs"
  by (simp add: upd_def comp_def if_distrib cong: if_cong)

lemma upd_nonempty: "(upd f g cs = []) = (cs = [])"
  by (simp add: upd_def)

lemma set_map_set: "(k, d) \<in> set (map_set f c cs) \<Longrightarrow> (k, d) = (f, c) \<or> (k, d) \<in> set cs"
  by (induction cs) (auto split: if_splits)

lemma keys_of_map_set: "fst ` set (map_set f c cs) = insert f (fst ` set cs)"
proof (induction cs)
  case Nil
  then show ?case by simp
next
  case (Cons a cs)
  obtain k d where a: "a = (k, d)" by (cases a)
  show ?case using Cons.IH by (simp add: a insert_commute)
qed

lemma distinct_map_set:
  "f \<notin> fst ` set cs \<Longrightarrow> distinct (map fst cs) \<Longrightarrow> distinct (map fst (map_set f c cs))"
  by (induction cs) (auto simp: keys_of_map_set split: if_splits)

lemma map_set_nonempty: "map_set f c cs \<noteq> []"
  by (cases cs) (auto split: if_splits)

lemma sum_map_set:
  fixes h :: "tree \<Rightarrow> 32 word"
  assumes "map_of cs f = None"
  shows "sum_list (map (\<lambda>kc. h (snd kc)) (map_set f c cs)) = sum_list (map (\<lambda>kc. h (snd kc)) cs) + h c"
  using assms
  by (induction cs) (auto split: if_splits)

lemma sum_upd:
  fixes h :: "tree \<Rightarrow> 32 word"
  assumes "distinct (map fst cs)" and "map_of cs f = Some c"
  shows "sum_list (map (\<lambda>kc. h (snd kc)) (upd f g cs)) + h c = sum_list (map (\<lambda>kc. h (snd kc)) cs) + h (g c)"
  using assms
proof (induction cs)
  case Nil
  then show ?case by simp
next
  case (Cons a cs)
  show ?case
  proof (cases "fst a = f")
    case True
    then have "f \<notin> fst ` set cs" using Cons.prems(1) by auto
    then have "\<forall>kc \<in> set cs. fst kc \<noteq> f" by force
    then have "upd f g cs = cs" by (simp add: upd_def map_idI)
    moreover have "snd a = c" using True Cons.prems(2) by (cases a) simp
    ultimately show ?thesis using True by (simp add: upd_def)
  next
    case False
    then have "map_of cs f = Some c" using Cons.prems(2) by (cases a) (auto split: if_splits)
    then have "sum_list (map (\<lambda>kc. h (snd kc)) (upd f g cs)) + h c = sum_list (map (\<lambda>kc. h (snd kc)) cs) + h (g c)"
      using Cons.IH Cons.prems(1) by simp
    then show ?thesis using False by (simp add: upd_def add.assoc)
  qed
qed

lemma credit_Cons:
  "credit (f # fs) v t
     = Tree (get t) (upd f (\<lambda>c. credit fs v (set_tree v c)) (children (insert_tree f t)))"
proof -
  have g: "get (insert_tree f t) = get t"
    by (simp add: insert_tree_def split: option.splits)
  show ?thesis
    by (simp add: assign_child_def upd_def g comp_def if_distrib cong: if_cong)
qed

lemma children_insert_tree:
  "children (insert_tree f t)
     = (case map_of (children t) f of Some c \<Rightarrow> children t | None \<Rightarrow> map_set f (Tree 0 []) (children t))"
  by (simp add: insert_tree_def split: option.splits)

declare credit.simps(2) [simp del]

lemma children_credit_nonempty:
  "p \<noteq> [] \<or> children t \<noteq> [] \<Longrightarrow> children (credit p v t) \<noteq> []"
  by (cases p) (auto simp: credit_Cons upd_nonempty children_insert_tree map_set_nonempty split: option.splits)

lemma lsum_chain: "lsum (credit fs v (Tree w [])) = (if fs = [] then w else v)"
proof (induction fs arbitrary: w)
  case Nil
  then show ?case by simp
next
  case (Cons f fs)
  have "credit (f # fs) v (Tree w []) = Tree w [(f, credit fs v (Tree v []))]"
    by (simp add: credit_Cons children_insert_tree upd_def set_tree_def)
  then show ?case using Cons.IH [of v] by simp
qed

lemma lsum_internal: "children t \<noteq> [] \<Longrightarrow> lsum t = csum t"
  by (cases t) (simp add: csum_def)

lemma wf_tree_children: "wf_tree t = (distinct (map fst (children t)) \<and> (\<forall>kc \<in> set (children t). wf_tree (snd kc)))"
  by (cases t) simp

lemma wf_set_tree: "wf_tree (set_tree v t) = wf_tree t"
  by (cases t) (simp add: set_tree_def)

lemma fresh_set_tree: "fresh p (set_tree v t) = fresh p t"
  by (cases p) (simp_all add: set_tree_def)

lemma csum_set_tree: "csum (set_tree v t) = csum t"
  by (simp add: csum_def set_tree_def)

lemma wf_credit: "wf_tree t \<Longrightarrow> wf_tree (credit p v t)"
proof (induction p arbitrary: t)
  case Nil
  then show ?case by simp
next
  case (Cons f fs)
  let ?cs = "children (insert_tree f t)"
  have d: "distinct (map fst ?cs)"
    using Cons.prems
    by (auto simp: children_insert_tree wf_tree_children [of t] map_of_eq_None_iff distinct_map_set
          split: option.splits)
  have w: "wf_tree (snd kc)" if "kc \<in> set ?cs" for kc
  proof (cases "map_of (children t) f")
    case None
    then have "kc \<in> set (map_set f (Tree 0 []) (children t))"
      using that by (simp add: children_insert_tree)
    then have "kc = (f, Tree 0 []) \<or> kc \<in> set (children t)"
      using set_map_set [of "fst kc" "snd kc" f "Tree 0 []" "children t"] by simp
    then show ?thesis
      using Cons.prems by (auto simp: wf_tree_children [of t])
  next
    case (Some c)
    then show ?thesis
      using that Cons.prems by (auto simp: children_insert_tree wf_tree_children [of t])
  qed
  have "wf_tree (snd kc)" if "kc \<in> set (upd f (\<lambda>c. credit fs v (set_tree v c)) ?cs)" for kc
  proof -
    from that have "kc \<in> (\<lambda>kc. if fst kc = f then (fst kc, credit fs v (set_tree v (snd kc))) else kc) ` set ?cs"
      by (simp add: upd_def)
    then obtain kc' where k: "kc' \<in> set ?cs"
      "kc = (if fst kc' = f then (fst kc', credit fs v (set_tree v (snd kc'))) else kc')"
      by blast
    show ?thesis
      using w [OF k(1)] Cons.IH [of "set_tree v (snd kc')"] by (simp add: k(2) wf_set_tree)
  qed
  then show ?case
    using d by (simp add: credit_Cons keys_upd)
qed

lemma csum_credit:
  "wf_tree t \<Longrightarrow> fresh p t \<Longrightarrow> csum (credit p v t) = csum t + v"
proof (induction p arbitrary: t)
  case Nil
  then show ?case by simp
next
  case (Cons f fs)
  let ?g = "\<lambda>c. credit fs v (set_tree v c)"
  show ?case
  proof (cases "map_of (children t) f")
    case None
    let ?cs = "map_set f (Tree 0 []) (children t)"
    have d: "distinct (map fst ?cs)"
      using Cons.prems(1) None by (simp add: wf_tree_children [of t] map_of_eq_None_iff distinct_map_set)
    have m: "map_of ?cs f = Some (Tree 0 [])"
      by (simp add: map_of_map_set)
    have "sum_list (map (\<lambda>kc. lsum (snd kc)) (upd f ?g ?cs)) + lsum (Tree 0 [])
            = sum_list (map (\<lambda>kc. lsum (snd kc)) ?cs) + lsum (?g (Tree 0 []))"
      by (rule sum_upd [OF d m])
    moreover have "lsum (?g (Tree 0 [])) = v"
      using lsum_chain [of fs v v] by (simp add: set_tree_def)
    moreover have "sum_list (map (\<lambda>kc. lsum (snd kc)) ?cs)
                     = sum_list (map (\<lambda>kc. lsum (snd kc)) (children t)) + lsum (Tree 0 [])"
      by (rule sum_map_set [OF None])
    ultimately show ?thesis
      using None by (simp add: credit_Cons children_insert_tree csum_def)
  next
    case (Some c)
    then have c: "children c \<noteq> []" "fresh fs c" using Cons.prems(2) by simp_all
    have d: "distinct (map fst (children t))" and wc: "wf_tree c"
      using Cons.prems(1) Some by (auto simp: wf_tree_children [of t] dest: map_of_SomeD)
    have "csum (?g c) = csum (set_tree v c) + v"
      by (rule Cons.IH) (simp_all add: wf_set_tree fresh_set_tree wc c)
    moreover have "children (?g c) \<noteq> []"
      using c(1) by (intro children_credit_nonempty) (simp add: set_tree_def)
    ultimately have g: "lsum (?g c) = lsum c + v"
      using c(1) by (simp add: lsum_internal csum_set_tree)
    have "sum_list (map (\<lambda>kc. lsum (snd kc)) (upd f ?g (children t))) + lsum c
            = sum_list (map (\<lambda>kc. lsum (snd kc)) (children t)) + lsum (?g c)"
      by (rule sum_upd [OF d Some])
    then show ?thesis
      using Some g by (simp add: credit_Cons children_insert_tree csum_def)
  qed
qed

lemma fresh_credit:
  "fresh p t \<Longrightarrow> \<not> prefix p q \<Longrightarrow> \<not> prefix q p \<Longrightarrow> fresh p (credit q v t)"
proof (induction p arbitrary: q t)
  case Nil
  then show ?case by simp
next
  case (Cons f fs)
  then obtain g gs where q: "q = g # gs" by (cases q) auto
  show ?case
  proof (cases "f = g")
    case False
    then have "map_of (children (credit q v t)) f = map_of (children t) f"
      by (auto simp: q credit_Cons map_of_upd children_insert_tree map_of_map_set split: option.splits)
    then show ?thesis using Cons.prems(1) by simp
  next
    case True
    then have inc: "\<not> prefix fs gs" "\<not> prefix gs fs" using Cons.prems(2,3) q by simp_all
    then have ne: "fs \<noteq> []" "gs \<noteq> []" by auto
    show ?thesis
    proof (cases "map_of (children t) f")
      case None
      have m: "map_of (children (credit q v t)) f = Some (credit gs v (Tree v []))"
        using None True
        by (simp add: q credit_Cons map_of_upd children_insert_tree map_of_map_set set_tree_def)
      have "fresh fs (Tree v [])" using ne(1) by (cases fs) simp_all
      then have "fresh fs (credit gs v (Tree v []))"
        using inc by (rule Cons.IH)
      moreover have "children (credit gs v (Tree v [])) \<noteq> []"
        using ne(2) by (intro children_credit_nonempty) simp
      ultimately show ?thesis using m by simp
    next
      case (Some c)
      then have c: "children c \<noteq> []" "fresh fs c" using Cons.prems(1) by simp_all
      have m: "map_of (children (credit q v t)) f = Some (credit gs v (set_tree v c))"
        using Some True
        by (simp add: q credit_Cons map_of_upd children_insert_tree)
      have "fresh fs (credit gs v (set_tree v c))"
        using inc by (intro Cons.IH) (simp_all add: fresh_set_tree c)
      moreover have "children (credit gs v (set_tree v c)) \<noteq> []"
        using ne(2) by (intro children_credit_nonempty) simp
      ultimately show ?thesis using m by simp
    qed
  qed
qed

lemma csum_credit_all:
  "wf_tree t \<Longrightarrow> list_all (\<lambda>pv. fresh (fst pv) t) pvs \<Longrightarrow> prefix_free (map fst pvs)
     \<Longrightarrow> csum (credit_all t pvs) = csum t + sum_list (map snd pvs)"
proof (induction pvs arbitrary: t)
  case Nil
  then show ?case by (simp add: credit_all_def)
next
  case (Cons pv pvs)
  let ?t = "credit (fst pv) (snd pv) t"
  have f: "fresh (fst pv) t" and inc: "list_all (\<lambda>q. \<not> prefix (fst pv) q \<and> \<not> prefix q (fst pv)) (map fst pvs)"
    and pf: "prefix_free (map fst pvs)"
    using Cons.prems(2,3) by simp_all
  have "list_all (\<lambda>qv. fresh (fst qv) ?t) pvs"
    using Cons.prems(2) inc by (auto simp: list_all_iff intro!: fresh_credit)
  then have "csum (credit_all ?t pvs) = csum ?t + sum_list (map snd pvs)"
    using wf_credit [OF Cons.prems(1)] pf by (intro Cons.IH)
  then show ?case
    using csum_credit [OF Cons.prems(1) f] by (simp add: credit_all_def)
qed

lemma credit_all_skip_empty:
  "credit_all t pvs = credit_all t (filter (\<lambda>pv. fst pv \<noteq> []) pvs)"
  by (induction pvs arbitrary: t) (simp_all add: credit_all_def)

lemma foldl_credit_leak:
  "foldl credit_leak t ts
     = credit_all t (map (\<lambda>x. (frames (tuple_cs x), ucast (leak_size (tuple_lk x)))) (contributing ts))"
  "foldl credit_leak_inv t ts
     = credit_all t (map (\<lambda>x. (rev (frames (tuple_cs x)), ucast (leak_size (tuple_lk x)))) (contributing ts))"
proof -
  have "foldl credit_leak t ts
          = credit_all t (map (\<lambda>x. (frames (tuple_cs x), ucast (leak_size (tuple_lk x)))) ts)"
    by (simp add: credit_all_def foldl_map credit_leak_def [abs_def])
  then show "foldl credit_leak t ts
     = credit_all t (map (\<lambda>x. (frames (tuple_cs x), ucast (leak_size (tuple_lk x)))) (contributing ts))"
    by (simp add: credit_all_skip_empty [of t "map _ ts"] contributing_def num_frames_def filter_map comp_def)
  have "foldl credit_leak_inv t ts
          = credit_all t (map (\<lambda>x. (rev (frames (tuple_cs x)), ucast (leak_size (tuple_lk x)))) ts)"
    by (simp add: credit_all_def foldl_map credit_leak_inv_def [abs_def])
  then show "foldl credit_leak_inv t ts
     = credit_all t (map (\<lambda>x. (rev (frames (tuple_cs x)), ucast (leak_size (tuple_lk x)))) (contributing ts))"
    by (simp add: credit_all_skip_empty [of t "map _ ts"] contributing_def num_frames_def filter_map comp_def)
qed



lemma unat_ucast_small: "unat (w :: 64 word) < 2 ^ 32 \<Longrightarrow> unat (ucast w :: 32 word) = unat w"
  by (simp add: unsigned_ucast_eq take_bit_nat_eq_self)

lemma sint_small: "unat (x :: 32 word) < 2 ^ 31 \<Longrightarrow> sint x = int (unat x)"
proof -
  assume a: "unat x < 2 ^ 31"
  have "sint x = signed_take_bit 31 (uint x)"
    by (simp add: sint_uint)
  also have "\<dots> = uint x"
  proof (rule signed_take_bit_int_eq_self)
    show "- (2 ^ 31) \<le> uint x" by (rule order_trans [of _ 0]) simp_all
    have "int (unat x) < int (2 ^ 31)" using a by (simp only: of_nat_less_iff)
    then show "uint x < 2 ^ 31" by simp
  qed
  finally show ?thesis by simp
qed

lemma unat_sum_ucast:
  fixes ws :: "size_t list"
  shows "sum_list (map unat ws) < 2 ^ 32 \<Longrightarrow>
         unat (sum_list (map ucast ws) :: 32 word) = sum_list (map unat ws)"
proof (induction ws)
  case Nil
  then show ?case by simp
next
  case (Cons w ws)
  then have s: "sum_list (map unat ws) < 2 ^ 32" and w: "unat w < 2 ^ 32" by simp_all
  have "unat (sum_list (map ucast ws) :: 32 word) = sum_list (map unat ws)"
    using s by (rule Cons.IH)
  moreover have "unat (ucast w :: 32 word) = unat w"
    using w by (rule unat_ucast_small)
  ultimately show ?case using Cons.prems by (simp add: unat_word_ariths)
qed

subsection \<open>Reentrant calls\<close>

text \<open>
  C9. Whenever the reentrancy flag \<^verbatim>\<open>recursive\<close> is set, a call of the tracer (so a nested
  \<^verbatim>\<open>watch\<close> or \<^verbatim>\<open>forget\<close>, with any pointer and any size) returns without modifying the
  state: the registry map, the counters and the reset watermark are what they were, and
  nothing is printed or stored.
\<close>

theorem reentrant_call_ignored:
  "recursive s \<Longrightarrow>
     tracer cfg e ptr sz s = (ptr, 0, [], s)
   \<and> watch cfg e ptr sz s = (ptr, [], s)
   \<and> forget cfg e ptr s = (ptr, [], s)"
  by (simp add: tracer_def watch_def forget_def try_lock_def)

theorem reentrant_call_ignored_witness:
  "recursive (init_state\<lparr> recursive := True \<rparr>)
   \<and> tracer default_config example_env 0x10 8 (init_state\<lparr> recursive := True \<rparr>)
       = (0x10, 0, [], init_state\<lparr> recursive := True \<rparr>)
   \<and> watch default_config example_env 0x10 8 (init_state\<lparr> recursive := True \<rparr>)
       = (0x10, [], init_state\<lparr> recursive := True \<rparr>)
   \<and> forget default_config example_env 0x10 (init_state\<lparr> recursive := True \<rparr>)
       = (0x10, [], init_state\<lparr> recursive := True \<rparr>)"
  using reentrant_call_ignored [of "init_state\<lparr> recursive := True \<rparr>" default_config example_env "0x10" 8]
  by simp

subsection \<open>The special values of the size\<close>

text \<open>
  C10. For a call at top level (tracing enabled, the registry alive, not reentrant) with a
  non-null pointer \<open>p\<close>, \<^verbatim>\<open>watch(p, SIZE_MAX)\<close> is \<^verbatim>\<open>forget(p)\<close>, and a \<^verbatim>\<open>watch\<close> with one of the
  five special sizes \<^verbatim>\<open>SIZE_MAX\<close> .. \<^verbatim>\<open>SIZE_MAX-4\<close> does what its opcode does and registers no
  allocation. Below, \<open>ev0\<close> and \<open>s'\<close> are the banner and the state of the first locked call of
  the process, and each outcome is the pointer returned, the events and the state.
  \<^item> \<^verbatim>\<open>SIZE_MAX\<close>, free: an entry of \<open>p\<close> has its two pointers nulled, and the counters lose its
    leak if it had one; with no entry the wild-pointer message is printed when enabled.
  \<^item> \<^verbatim>\<open>SIZE_MAX-1\<close>, control: the \<^verbatim>\<open>int\<close> at \<open>p\<close> is read; 1 resets the registry, 2 stores the
    counters into the \<^verbatim>\<open>stats_t\<close> at \<open>p\<close>, any other code does nothing.
  \<^item> \<^verbatim>\<open>SIZE_MAX-2\<close>, size query: the tracer hands back the size of the leak at \<open>p\<close> (0 and a null
    pointer when there is none), and nothing changes.
  \<^item> \<^verbatim>\<open>SIZE_MAX-3\<close>, report: the report is printed and written, and the name of its file is
    assigned to the \<^verbatim>\<open>tracey::string\<close> at \<open>p\<close>.
  \<^item> \<^verbatim>\<open>SIZE_MAX-4\<close>, view: the \<^verbatim>\<open>tracey::string\<close> at \<open>p\<close> is passed to the viewer.

  Where \<open>p\<close> does not point to the object that the opcode accesses, the access is the fault:
  the call ends there, with the lock still held. In every case each record that the map
  holds afterwards was there before.
\<close>

theorem sentinel_sizes_are_opcodes:
  assumes "kTraceyEnabled cfg" and "p \<noteq> 0" and "mutex s" and "\<not> recursive s" and "sentinel sz"
  shows
   "(let ev0 = (if kTraceyWebserver cfg \<and> \<not> once s then [Printf (settings e), StartWebserver] else []);
         s' = s\<lparr> once := once s \<or> kTraceyWebserver cfg \<rparr>;
         r = container_report e (timestamp_id s) (cmap s)
     in watch cfg e p (- 1) s = forget cfg e p s
      \<and> forget cfg e p s =
          (case map_of (cmap s) p of
             Some map_ptr \<Rightarrow>
               (p, ev0,
                s'\<lparr> cmap := map_set p (None, None) (cmap s),
                    stats := (case fst map_ptr of
                                Some l \<Rightarrow> (stats s)\<lparr> leaks := leaks (stats s) - 1,
                                                     usage := usage (stats s) - leak_size l \<rparr>
                              | None \<Rightarrow> stats s) \<rparr>)
           | None \<Rightarrow>
               (p, ev0 @ (if kTraceyReportWildPointers cfg then [Printf (wild_pointer_message e)] else []), s'))
      \<and> watch cfg e p (- 1 - 1) s =
          (case mem_int e p of
             None \<Rightarrow> (p, ev0 @ [Fault], s'\<lparr> recursive := True \<rparr>)
           | Some code \<Rightarrow>
               if code = 1
               then (p, ev0, s'\<lparr> stats := stats_t0, cmap := [], id_static := id_static s + 1,
                                 timestamp_id := id_static s + 1 \<rparr>)
               else if code = 2
               then (if mem_stats e p then (p, ev0 @ [StoreStats p (stats s)], s')
                     else (p, ev0 @ [Fault], s'\<lparr> recursive := True \<rparr>))
               else (p, ev0, s'))
      \<and> tracer cfg e p (- 1 - 2) s =
          (case map_of (cmap s) p of
             Some map_ptr \<Rightarrow> (p, (case fst map_ptr of Some l \<Rightarrow> leak_size l | None \<Rightarrow> 0), ev0, s')
           | None \<Rightarrow> (0, 0, ev0, s'))
      \<and> watch cfg e p (- 1 - 2) s = (p, ev0, s')
      \<and> watch cfg e p (- 1 - 3) s =
          (case mem_string e p of
             Some str \<Rightarrow>
               (p, ev0 @ map Printf (console r)
                   @ [FileWritten (logfile r) (file_text r), StoreString p (logfile r)], s')
           | None \<Rightarrow>
               (p, ev0 @ map Printf (console r) @ [FileWritten (logfile r) (file_text r), Fault],
                s'\<lparr> recursive := True \<rparr>))
      \<and> watch cfg e p (- 1 - 4) s =
          (case mem_string e p of
             Some str \<Rightarrow> (p, ev0 @ [ViewReport str], s')
           | None \<Rightarrow> (p, ev0 @ [Fault], s'\<lparr> recursive := True \<rparr>))
      \<and> set (live_records (cmap (snd (snd (watch cfg e p sz s))))) \<subseteq> set (live_records (cmap s)))"
proof -
  have w: "snd (snd (watch cfg e p sz s)) = snd (snd (snd (tracer cfg e p sz s)))"
    by (simp add: watch_def split: prod.splits)
  have u: "s\<lparr> recursive := False \<rparr> = s" using assms(4) by (rule unlock_relock)
  have c1: "watch cfg e p (- 1) s = forget cfg e p s"
    by (simp add: watch_def forget_def)
  have c7: "set (live_records (cmap (snd (snd (watch cfg e p sz s))))) \<subseteq> set (live_records (cmap s))"
    using sentinel_cmap [OF assms(5), of cfg e p s] by (simp add: w)
  show ?thesis
    unfolding Let_def
    apply (intro conjI)
    subgoal by (rule c1)
    subgoal using assms u
      by (cases s) (auto simp add: forget_def tracer_top locked_def dispatch_def free_branch_def
          webserver_once_def unlock_def Let_def split: option.splits)
    subgoal using assms u
      by (cases s) (auto simp add: watch_def tracer_top locked_def dispatch_def control_branch_def
          webserver_once_def unlock_def create_id_def Let_def split: option.splits)
    subgoal using assms u
      by (cases s) (auto simp add: tracer_top locked_def dispatch_def size_branch_def
          webserver_once_def unlock_def Let_def split: option.splits)
    subgoal using assms u
      by (cases s) (auto simp add: watch_def tracer_top locked_def dispatch_def size_branch_def
          webserver_once_def unlock_def Let_def split: option.splits)
    subgoal using assms u
      by (cases s) (auto simp add: watch_def tracer_top locked_def dispatch_def report_branch_def
          webserver_once_def unlock_def Let_def no_fault_in_prints split: option.splits)
    subgoal using assms u
      by (cases s) (auto simp add: watch_def tracer_top locked_def dispatch_def view_branch_def
          webserver_once_def unlock_def Let_def split: option.splits)
    subgoal by (rule c7)
    done
qed

theorem sentinel_sizes_are_opcodes_witness:
  "kTraceyEnabled default_config \<and> (0x10 :: addr) \<noteq> 0 \<and> mutex init_state \<and> \<not> recursive init_state
   \<and> sentinel (- 1 - 4)
   \<and> watch default_config (example_env\<lparr> mem_int := [0x10 \<mapsto> 1] \<rparr>) 0x10 (- 1) init_state
       = forget default_config (example_env\<lparr> mem_int := [0x10 \<mapsto> 1] \<rparr>) 0x10 init_state
   \<and> forget default_config (example_env\<lparr> mem_int := [0x10 \<mapsto> 1] \<rparr>) 0x10 init_state
       = (0x10, [Printf ''tracey ready'', StartWebserver], init_state\<lparr> once := True \<rparr>)
   \<and> watch default_config (example_env\<lparr> mem_int := [0x10 \<mapsto> 1] \<rparr>) 0x10 (- 1 - 1) init_state
       = (0x10, [Printf ''tracey ready'', StartWebserver],
          init_state\<lparr> once := True, stats := stats_t0, cmap := [], id_static := 1, timestamp_id := 1 \<rparr>)
   \<and> watch default_config (example_env\<lparr> mem_int := [0x10 \<mapsto> 1] \<rparr>) 0x10 (- 1 - 2) init_state
       = (0x10, [Printf ''tracey ready'', StartWebserver], init_state\<lparr> once := True \<rparr>)
   \<and> watch default_config (example_env\<lparr> mem_int := [0x10 \<mapsto> 1] \<rparr>) 0x10 (- 1 - 4) init_state
       = (0x10, [Printf ''tracey ready'', StartWebserver, Fault],
          init_state\<lparr> once := True, recursive := True \<rparr>)
   \<and> set (live_records (cmap (snd (snd
          (watch default_config (example_env\<lparr> mem_int := [0x10 \<mapsto> 1] \<rparr>) 0x10 (- 1 - 4) init_state)))))
       \<subseteq> set (live_records (cmap init_state))"
proof -
  have h: "kTraceyEnabled default_config" "(0x10 :: addr) \<noteq> 0" "mutex init_state"
    "\<not> recursive init_state" "sentinel (- 1 - 4)"
    by (simp_all add: example_defs sentinel_def)
  from sentinel_sizes_are_opcodes [OF h, of "example_env\<lparr> mem_int := [0x10 \<mapsto> 1] \<rparr>"]
  show ?thesis
    using h by (simp add: Let_def example_defs)
qed

subsection \<open>The counters\<close>

text \<open>
  C1. The claim is that \<^verbatim>\<open>summary\<close> returns the running counters, \<open>{0, 0, 8}\<close> after
  \<^verbatim>\<open>watch(0x1,8); forget(0x1)\<close>. In the source \<^verbatim>\<open>summary\<close> passes \<^verbatim>\<open>(~0) - 2\<close>, the size
  query, and not the control opcode whose code 2 stores \<^verbatim>\<open>stats\<close>: nothing is ever stored
  into its local \<^verbatim>\<open>st\<close>, which it returns as declared, in every state. After the two calls
  the counters are \<open>{0, 0, 8}\<close> and \<^verbatim>\<open>summary\<close>, with a zeroed local, returns \<open>{0, 0, 0}\<close>.
\<close>

theorem summary_never_reads_counters:
  "fst (summary cfg e a st0 s) = st0
   \<and> stats (run default_config [(example_env, Watch 1 8), (example_env, Forget 1)] init_state)
       = \<lparr> leaks = 0, usage = 0, peak = 8 \<rparr>
   \<and> fst (summary default_config example_env 0x7FFC0000
             \<lparr> leaks = 0, usage = 0, peak = 0 \<rparr>
             (run default_config [(example_env, Watch 1 8), (example_env, Forget 1)] init_state))
       = \<lparr> leaks = 0, usage = 0, peak = 0 \<rparr>"
proof -
  have a: "fst (summary cfg e a st0 s) = st0" for cfg e a st0 s
    by (auto simp add: summary_def tracer_def locked_def try_lock_def webserver_once_def
          dispatch_def size_branch_def split: option.splits prod.splits)
  have b: "stats (run default_config [(example_env, Watch 1 8), (example_env, Forget 1)] init_state)
       = \<lparr> leaks = 0, usage = 0, peak = 8 \<rparr>"
    by (simp add: call_defs example_defs)
  show ?thesis using a b by simp
qed

text \<open>
  C2. The claim is that a second \<^verbatim>\<open>watch\<close> of an address releases the accounting of the
  first, so that \<^verbatim>\<open>watch(0x3,10); watch(0x3,20); forget(0x3)\<close> leaves both counters at 0. The
  allocation branch overwrites the entry and adds to the counters without looking at the
  entry it replaces: afterwards the map holds no record, and the counters say one leak of
  10 bytes.
\<close>

theorem double_watch_is_counted_twice:
  "stats (run default_config
            [(example_env, Watch 3 10), (example_env, Watch 3 20), (example_env, Forget 3)] init_state)
     = \<lparr> leaks = 1, usage = 10, peak = 30 \<rparr>
   \<and> live_records (cmap (run default_config
            [(example_env, Watch 3 10), (example_env, Watch 3 20), (example_env, Forget 3)] init_state)) = []"
  by (simp add: call_defs example_defs)

subsection \<open>A forget without a record\<close>

text \<open>
  C8, as stated, fails: with wild-pointer reporting enabled, a \<^verbatim>\<open>forget\<close> of an address with
  no live record emits no diagnostic when the address was watched and forgotten before. The
  free branch keeps the entry of a forgotten address, with both pointers null, so the address
  is still found: after \<^verbatim>\<open>watch(0x10,8); forget(0x10)\<close> the registry holds no record for
  \<^verbatim>\<open>0x10\<close>, and a second \<^verbatim>\<open>forget(0x10)\<close> prints nothing and returns the pointer as it was.
\<close>

theorem wild_forget_counterexample:
  "record_of (cmap (run (default_config\<lparr> kTraceyReportWildPointers := True \<rparr>)
                     [(example_env, Watch 0x10 8), (example_env, Forget 0x10)] init_state)) 0x10 = None
   \<and> tracer (default_config\<lparr> kTraceyReportWildPointers := True \<rparr>) example_env 0x10 (- 1)
        (run (default_config\<lparr> kTraceyReportWildPointers := True \<rparr>)
           [(example_env, Watch 0x10 8), (example_env, Forget 0x10)] init_state)
      = (0x10, - 1, [],
         run (default_config\<lparr> kTraceyReportWildPointers := True \<rparr>)
           [(example_env, Watch 0x10 8), (example_env, Forget 0x10)] init_state)"
  by (simp add: call_defs example_defs record_of_def)

text \<open>
  C8, amended. With wild-pointer reporting enabled, a \<^verbatim>\<open>forget\<close> at top level of a non-null
  address that has no entry in the map (never watched since the last reset) prints exactly
  one diagnostic, after the settings banner if this is the first call of the process; the
  tracer returns a null pointer; and the map, the counters, the watermark and the id counter
  are unchanged (only the flag \<^verbatim>\<open>once\<close> of the banner may change).
\<close>

theorem wild_forget_of_unknown_address:
  assumes "kTraceyEnabled cfg" and "kTraceyReportWildPointers cfg" and "p \<noteq> 0"
    and "mutex s" and "\<not> recursive s" and "map_of (cmap s) p = None"
  shows "tracer cfg e p (- 1) s
           = (0, - 1, fst (webserver_once cfg e s) @ [Printf (wild_pointer_message e)],
              snd (webserver_once cfg e s))
         \<and> cmap (snd (webserver_once cfg e s)) = cmap s
         \<and> stats (snd (webserver_once cfg e s)) = stats s
         \<and> timestamp_id (snd (webserver_once cfg e s)) = timestamp_id s
         \<and> id_static (snd (webserver_once cfg e s)) = id_static s"
  using assms unlock_relock [of s] unlock_relock [of "s\<lparr>once := True\<rparr>"]
  by (simp add: tracer_top locked_def dispatch_def free_branch_def webserver_once_def unlock_def)

theorem wild_forget_of_unknown_address_witness:
  "kTraceyEnabled (default_config\<lparr> kTraceyReportWildPointers := True \<rparr>)
   \<and> kTraceyReportWildPointers (default_config\<lparr> kTraceyReportWildPointers := True \<rparr>)
   \<and> (0xDEADBEEF :: addr) \<noteq> 0 \<and> mutex init_state \<and> \<not> recursive init_state
   \<and> map_of (cmap init_state) (0xDEADBEEF :: addr) = None
   \<and> tracer (default_config\<lparr> kTraceyReportWildPointers := True \<rparr>) example_env 0xDEADBEEF (- 1) init_state
       = (0, - 1,
          fst (webserver_once (default_config\<lparr> kTraceyReportWildPointers := True \<rparr>) example_env init_state)
            @ [Printf (wild_pointer_message example_env)],
          snd (webserver_once (default_config\<lparr> kTraceyReportWildPointers := True \<rparr>) example_env init_state))"
proof -
  have h: "kTraceyEnabled (default_config\<lparr> kTraceyReportWildPointers := True \<rparr>)"
    "kTraceyReportWildPointers (default_config\<lparr> kTraceyReportWildPointers := True \<rparr>)"
    "(0xDEADBEEF :: addr) \<noteq> 0" "mutex init_state" "\<not> recursive init_state"
    "map_of (cmap init_state) (0xDEADBEEF :: addr) = None"
    by (simp_all add: example_defs)
  from wild_forget_of_unknown_address [OF h, of example_env] show ?thesis
    using h by blast
qed

subsection \<open>Reset\<close>

text \<open>
  C4. For every state in which a call at top level reaches the dispatcher (and whose id
  counter is not within two steps of wrapping around), after \<^verbatim>\<open>restart\<close> the counters are
  all zero and the map is empty, so a report then finds no leak and writes the header with
  \<open>ok, 0 leaks found; 0 bytes wasted\<close> and nothing else; and after
  \<^verbatim>\<open>watch(a,5); restart(); watch(b,7)\<close> a report finds the one leak \<open>b\<close> of 7 bytes, and its
  file starts with the header for 1 leak and 7 wasted bytes. (The counters are those of the
  registry; what \<^verbatim>\<open>summary\<close> returns is the subject of C1.)
\<close>

theorem reset_clears_counters_and_reports:
  assumes "kTraceyEnabled cfg" and "mutex s" and "\<not> recursive s"
    and "ao \<noteq> 0" and "ar \<noteq> 0" and "b \<noteq> 0"
    and "id_static s + 1 \<noteq> - 1" and "id_static s + 2 \<noteq> - 1"
  shows
    "stats (snd (restart cfg e ao s)) = \<lparr> leaks = 0, usage = 0, peak = 0 \<rparr>
     \<and> cmap (snd (restart cfg e ao s)) = []
     \<and> collect_leaks (timestamp_id (snd (restart cfg e ao s))) (cmap (snd (restart cfg e ao s))) = (0, [])
     \<and> written (fst (snd (report cfg e1 ar (snd (restart cfg e ao s)))))
         = [(get_temp_pathfile e1 @ ''xxx-tracey.html'',
             report_header 0 0 ''perfect!'' @ ''</xmp></body></html>'')]
     \<and> collect_leaks (timestamp_id (watch_reset_watch cfg e1 e2 e3 a ao b s))
           (cmap (watch_reset_watch cfg e1 e2 e3 a ao b s))
         = (7, [\<lparr> tuple_addr = b,
                  tuple_lk = \<lparr> leak_size = 7, leak_id = id_static (watch_reset_watch cfg e1 e2 e3 a ao b s) \<rparr>,
                  tuple_cs = captured e3 \<rparr>])
     \<and> map fst (written (fst (snd (report cfg e4 ar (watch_reset_watch cfg e1 e2 e3 a ao b s)))))
         = [get_temp_pathfile e4 @ ''xxx-tracey.html'']
     \<and> list_all (prefix (report_header 1 7 ''lame''))
           (map snd (written (fst (snd (report cfg e4 ar (watch_reset_watch cfg e1 e2 e3 a ao b s))))))"
proof -
  let ?s1 = "snd (restart cfg e ao s)"
  have s1: "?s1 = s\<lparr> once := once s \<or> kTraceyWebserver cfg, stats := stats_t0, cmap := [],
                id_static := id_static s + 1, timestamp_id := id_static s + 1 \<rparr>"
    by (rule restart_top [OF assms(1,4,2,3)])
  have g1: "mutex ?s1" "\<not> recursive ?s1" using assms by (simp_all add: s1)
  have c1: "stats ?s1 = \<lparr> leaks = 0, usage = 0, peak = 0 \<rparr>" "cmap ?s1 = []"
    by (simp_all add: s1 stats_t0_def)
  have c3: "written (fst (snd (report cfg e1 ar ?s1)))
         = [(get_temp_pathfile e1 @ ''xxx-tracey.html'',
             report_header 0 0 ''perfect!'' @ ''</xmp></body></html>'')]"
    unfolding report_top(2) [OF assms(1,5) g1] c1 by (simp add: container_report_empty)
  let ?sa = "snd (snd (watch cfg e1 a 5 s))"
  have ns: "\<not> sentinel (5 :: size_t)" by (simp add: sentinel_def)
  have ga: "mutex ?sa" "\<not> recursive ?sa"
    using watch_keeps_guards(1,2) [OF ns assms(3), of cfg e1 a] assms(2) by simp_all
  have ida: "id_static ?sa + 1 \<noteq> - 1"
    using watch_keeps_guards(3) [OF ns assms(3), of cfg e1 a] assms(7,8)
    by (auto simp: add.assoc)
  let ?s3 = "watch_reset_watch cfg e1 e2 e3 a ao b s"
  have s3: "?s3 = snd (snd (watch cfg e3 b 7 (snd (restart cfg e2 ao ?sa))))"
    by (simp add: watch_reset_watch_def)
  note r = reset_then_watch [OF assms(1) ga assms(4,6) ida, of e3 e2, folded s3]
  have cm: "cmap ?s3 = [(b, Some \<lparr> leak_size = 7, leak_id = id_static ?s3 \<rparr>, Some (captured e3))]"
    and ts: "timestamp_id ?s3 \<le> id_static ?s3"
  proof -
    let ?s2 = "snd (restart cfg e2 ao ?sa)"
    have s2: "?s2 = ?sa\<lparr> once := once ?sa \<or> kTraceyWebserver cfg, stats := stats_t0, cmap := [],
                id_static := id_static ?sa + 1, timestamp_id := id_static ?sa + 1 \<rparr>"
      by (rule restart_top [OF assms(1,4) ga])
    have g2: "mutex ?s2" "\<not> recursive ?s2" using ga by (simp_all add: s2)
    have n7: "\<not> sentinel (7 :: size_t)" by (simp add: sentinel_def)
    note w = watch_top [OF assms(1,6) g2 n7, of e3]
    show "cmap ?s3 = [(b, Some \<lparr> leak_size = 7, leak_id = id_static ?s3 \<rparr>, Some (captured e3))]"
      unfolding s3 w by (simp add: s2)
    show "timestamp_id ?s3 \<le> id_static ?s3"
      unfolding s3 w using word_succ_ge [OF ida] by (simp add: s2)
  qed
  have c5: "written (fst (snd (report cfg e4 ar ?s3)))
      = [(get_temp_pathfile e4 @ ''xxx-tracey.html'',
          file_text (container_report e4 (timestamp_id ?s3) (cmap ?s3)))]"
    unfolding report_top(2) [OF assms(1,5) r(2,3)] by (simp add: container_report_logfile)
  have c6: "prefix (report_header 1 7 ''lame'')
              (file_text (container_report e4 (timestamp_id ?s3) (cmap ?s3)))"
    unfolding cm
    using container_report_single
            [of "timestamp_id ?s3" "\<lparr> leak_size = 7, leak_id = id_static ?s3 \<rparr>" e4 b "captured e3"] ts
    by simp
  show ?thesis
    using c1 c3 r(1) c5 c6 by simp
qed

theorem reset_clears_counters_and_reports_witness:
  "kTraceyEnabled default_config \<and> mutex init_state \<and> \<not> recursive init_state
   \<and> (0x7FFC0000 :: addr) \<noteq> 0 \<and> (0x7FFC0010 :: addr) \<noteq> 0 \<and> (0x20 :: addr) \<noteq> 0
   \<and> id_static init_state + 1 \<noteq> - 1 \<and> id_static init_state + 2 \<noteq> - 1
   \<and> stats (snd (restart default_config example_env 0x7FFC0000 init_state))
       = \<lparr> leaks = 0, usage = 0, peak = 0 \<rparr>
   \<and> cmap (snd (restart default_config example_env 0x7FFC0000 init_state)) = []
   \<and> map fst (written (fst (snd (report default_config example_env 0x7FFC0010
        (watch_reset_watch default_config example_env example_env example_env 0x10 0x7FFC0000 0x20
           init_state)))))
       = [get_temp_pathfile example_env @ ''xxx-tracey.html'']"
proof -
  have h: "kTraceyEnabled default_config" "mutex init_state" "\<not> recursive init_state"
    "(0x7FFC0000 :: addr) \<noteq> 0" "(0x7FFC0010 :: addr) \<noteq> 0" "(0x20 :: addr) \<noteq> 0"
    "id_static init_state + 1 \<noteq> - 1" "id_static init_state + 2 \<noteq> - 1"
    by (simp_all add: example_defs)
  from reset_clears_counters_and_reports
         [OF h, of example_env example_env example_env example_env "0x10" example_env]
  show ?thesis
    using h by blast
qed

subsection \<open>What \<^verbatim>\<open>report\<close> returns\<close>

text \<open>
  C5, as stated, fails: the string that \<^verbatim>\<open>report\<close> returns is not the report text and has
  no HTML envelope. On the initial registry, with the temporary path \<^verbatim>\<open>/tmp/fileAbC123\<close>, it
  is the file name \<^verbatim>\<open>/tmp/fileAbC123xxx-tracey.html\<close>.
\<close>

theorem report_result_counterexample:
  "fst (report default_config example_env 0x7FFC0000 init_state) = ''/tmp/fileAbC123xxx-tracey.html''
   \<and> \<not> prefix ''<html><body><xmp>'' (fst (report default_config example_env 0x7FFC0000 init_state))
   \<and> \<not> suffix ''</xmp></body></html>'' (fst (report default_config example_env 0x7FFC0000 init_state))"
proof -
  have h: "kTraceyEnabled default_config" "(0x7FFC0000 :: addr) \<noteq> 0" "mutex init_state"
    "\<not> recursive init_state"
    by (simp_all add: example_defs)
  have "fst (report default_config example_env 0x7FFC0000 init_state) = ''/tmp/fileAbC123xxx-tracey.html''"
    using report_top(1) [OF h, of example_env]
    by (simp add: container_report_logfile) (simp add: example_env_def)
  then show ?thesis by (simp add: suffix_def)
qed

text \<open>
  C5, amended. For every registry state, a \<^verbatim>\<open>report\<close> at top level writes the textual report
  to one file, named by the temporary path followed by \<^verbatim>\<open>xxx-tracey.html\<close>, and returns that
  file name; the text written to the file begins with \<^verbatim>\<open><html><body><xmp>\<close> and ends with
  \<^verbatim>\<open></xmp></body></html>\<close>.
\<close>

theorem report_returns_path_of_enveloped_file:
  assumes "kTraceyEnabled cfg" and "a \<noteq> 0" and "mutex s" and "\<not> recursive s"
  shows "fst (report cfg e a s) = get_temp_pathfile e @ ''xxx-tracey.html''
       \<and> written (fst (snd (report cfg e a s)))
           = [(get_temp_pathfile e @ ''xxx-tracey.html'',
               file_text (container_report e (timestamp_id s) (cmap s)))]
       \<and> prefix ''<html><body><xmp>'' (file_text (container_report e (timestamp_id s) (cmap s)))
       \<and> suffix ''</xmp></body></html>'' (file_text (container_report e (timestamp_id s) (cmap s)))"
  using report_top(1,2) [OF assms, of e]
  by (simp add: container_report_logfile container_report_envelope)

theorem report_returns_path_of_enveloped_file_witness:
  "kTraceyEnabled default_config \<and> (0x7FFC0000 :: addr) \<noteq> 0 \<and> mutex init_state
   \<and> \<not> recursive init_state
   \<and> fst (report default_config example_env 0x7FFC0000 init_state)
       = get_temp_pathfile example_env @ ''xxx-tracey.html''
   \<and> prefix ''<html><body><xmp>''
        (file_text (container_report example_env (timestamp_id init_state) (cmap init_state)))
   \<and> suffix ''</xmp></body></html>''
        (file_text (container_report example_env (timestamp_id init_state) (cmap init_state)))"
proof -
  have h: "kTraceyEnabled default_config" "(0x7FFC0000 :: addr) \<noteq> 0" "mutex init_state"
    "\<not> recursive init_state"
    by (simp_all add: example_defs)
  from report_returns_path_of_enveloped_file [OF h, of example_env] show ?thesis
    using h by blast
qed

subsection \<open>The quality score\<close>

text \<open>
  C7, as stated, fails: the divisor is not the number of allocations ever made. After nine
  rounds of \<^verbatim>\<open>watch(0x1,8); forget(0x1)\<close> and a tenth \<^verbatim>\<open>watch(0x1,8)\<close> there have been ten
  allocations and there is one leak, so the claimed percentage is 10 and the claimed score
  \<open>mediocre\<close>; the map has one entry, and the score of the report is \<open>lame\<close>.
\<close>

theorem score_counterexample:
  "total_allocations_ever (map snd reuse_trace) = 10
   \<and> length (snd (collect_leaks (timestamp_id (run default_config reuse_trace init_state))
                     (cmap (run default_config reuse_trace init_state)))) = 1
   \<and> report_score (timestamp_id (run default_config reuse_trace init_state))
                   (cmap (run default_config reuse_trace init_state)) = ''lame''
   \<and> spec_bucket (100 * 1 / real (total_allocations_ever (map snd reuse_trace))) = ''mediocre''"
proof -
  have t: "total_allocations_ever (map snd reuse_trace) = 10"
    by (simp add: reuse_trace_def total_allocations_ever_def)
  show ?thesis
    unfolding reuse_trace_state t
    by (simp add: report_score_def leaks_pct_def score_of_def spec_bucket_def)
qed

text \<open>
  C7, amended. The score of a report is the first matching bucket, in the order \<open>pct = 0\<close>
  perfect!, \<open>pct \<le> 1.25\<close> excellent, \<open>pct \<le> 2.5\<close> good, \<open>pct \<le> 5\<close> poor, \<open>pct \<le> 10\<close>
  mediocre, otherwise lame, where \<open>pct\<close> is 100 times the number of leaks found divided by
  the number of entries of the registry map (the addresses watched since the last reset,
  forgotten ones included), and 0 when the map is empty; it is perfect! if and only if no
  leak is found.
\<close>

theorem score_buckets_on_map_size:
  "report_score ts m
     = spec_bucket (leaks_pct (length (snd (collect_leaks ts m))) (length m))
   \<and> leaks_pct (length (snd (collect_leaks ts m))) (length m)
     = (if length m \<noteq> 0 then real (length (snd (collect_leaks ts m))) * 100 / real (length m) else 0)
   \<and> (report_score ts m = ''perfect!'') = (snd (collect_leaks ts m) = [])"
proof -
  let ?n = "length (snd (collect_leaks ts m))"
  have le: "?n \<le> length m" by (rule collect_leaks_length)
  have a: "report_score ts m = spec_bucket (leaks_pct ?n (length m))"
    by (simp add: report_score_def score_of_bucket leaks_pct_nonneg)
  have "(leaks_pct ?n (length m) = 0) = (?n = 0)"
    using le by (auto simp: leaks_pct_def)
  then have c: "(report_score ts m = ''perfect!'') = (snd (collect_leaks ts m) = [])"
    unfolding a by (simp add: spec_bucket_def)
  show ?thesis using a c by (simp add: leaks_pct_def)
qed

subsection \<open>Matching pairs\<close>

text \<open>
  C3. Take a registry that is ready for calls at top level and holds no record, with
  \<^verbatim>\<open>stats.usage\<close> at 0, and a sequence of \<^verbatim>\<open>watch\<close> and \<^verbatim>\<open>forget\<close> calls in matching pairs
  (each \<^verbatim>\<open>watch\<close> of a non-null address that is not live, with an ordinary size; each
  \<^verbatim>\<open>forget\<close> of a live address). Then at every point of the sequence \<^verbatim>\<open>stats.usage\<close> is the
  sum of the sizes of the \<^verbatim>\<open>watch\<close> calls not yet matched by a \<^verbatim>\<open>forget\<close> (a sum of
  \<^verbatim>\<open>size_t\<close>, and the sum of the numbers whenever that is below \<open>2^64\<close>), the records that the
  map holds are exactly those of the unmatched calls, and after the final \<^verbatim>\<open>forget\<close> of an
  address the registry holds no record for it: the entry of that address stays in the map
  with both of its pointers null.
\<close>

theorem matched_pairs_accounting:
  assumes "kTraceyEnabled cfg" and "mutex s" and "\<not> recursive s"
    and "live_records (cmap s) = []" and "usage (stats s) = 0"
    and "matching [] (map snd ecs)"
  shows
    "(\<forall>n. usage (stats (run cfg (take n ecs) s))
            = sum_list (map snd (outstanding [] (map snd (take n ecs)))))
     \<and> (\<forall>n. sum_list (map unat (map snd (outstanding [] (map snd (take n ecs))))) < 2 ^ 64 \<longrightarrow>
            unat (usage (stats (run cfg (take n ecs) s)))
              = sum_list (map unat (map snd (outstanding [] (map snd (take n ecs))))))
     \<and> (\<forall>n p. map_option leak_size (record_of (cmap (run cfg (take n ecs) s)) p)
            = map_of (outstanding [] (map snd (take n ecs))) p)
     \<and> (\<forall>pre e p post. ecs = pre @ (e, Forget p) # post \<and> (\<forall>sz. Watch p sz \<notin> set (map snd post)) \<longrightarrow>
            record_of (cmap (run cfg ecs s)) p = None
            \<and> map_of (cmap (run cfg ecs s)) p = Some (None, None))"
proof -
  have t0: "tracks s []"
    using assms(2-5) by (simp add: tracks_def no_live_records)
  have tn: "tracks (run cfg (take n ecs) s) (outstanding [] (map snd (take n ecs)))" for n
    using tracks_run [OF assms(1) t0, of "take n ecs"] matching_take [OF assms(6), of n]
    by (simp add: take_map)
  have a: "usage (stats (run cfg (take n ecs) s))
            = sum_list (map snd (outstanding [] (map snd (take n ecs))))" for n
    using tn [of n] by (simp add: tracks_def)
  have b: "unat (usage (stats (run cfg (take n ecs) s)))
              = sum_list (map unat (map snd (outstanding [] (map snd (take n ecs)))))"
    if "sum_list (map unat (map snd (outstanding [] (map snd (take n ecs))))) < 2 ^ 64" for n
    unfolding a using unat_sum_list [OF that] by simp
  have c: "map_option leak_size (record_of (cmap (run cfg (take n ecs) s)) p)
            = map_of (outstanding [] (map snd (take n ecs))) p" for n p
    using tn [of n] by (simp add: tracks_def)
  have d: "record_of (cmap (run cfg ecs s)) p = None
            \<and> map_of (cmap (run cfg ecs s)) p = Some (None, None)"
    if ecs: "ecs = pre @ (e, Forget p) # post" and nw: "\<forall>sz. Watch p sz \<notin> set (map snd post)"
    for pre e p post
  proof -
    let ?out = "outstanding [] (map snd pre)"
    let ?s1 = "run cfg pre s"
    have m: "matching [] (map snd pre)" "p \<in> fst ` set ?out"
      "matching (filter (\<lambda>ps. fst ps \<noteq> p) ?out) (map snd post)"
      using assms(6) by (simp_all add: ecs matching_append)
    have t1: "tracks ?s1 ?out" by (rule tracks_run [OF assms(1) t0 m(1)])
    have g: "mutex ?s1" "\<not> recursive ?s1" and nz: "p \<noteq> 0"
      using t1 m(2) by (auto simp: tracks_def)
    obtain sz where sz: "map_of ?out p = Some sz"
      using m(2) by (metis domD dom_map_of_conv_image_fst)
    then have "map_option leak_size (record_of (cmap ?s1) p) = Some sz"
      using t1 by (simp add: tracks_def)
    then obtain l c' where ml: "map_of (cmap ?s1) p = Some (Some l, c')"
      by (auto simp: record_of_def split: option.splits)
    let ?s2 = "run_call cfg e (Forget p) ?s1"
    have t2: "tracks ?s2 (filter (\<lambda>ps. fst ps \<noteq> p) ?out)"
      by (rule tracks_forget [OF assms(1) t1 m(2)])
    have e2: "map_of (cmap ?s2) p = Some (None, None)"
      by (simp add: forget_top [OF assms(1) nz g ml] map_of_map_set)
    have "map_of (cmap (run cfg post ?s2)) p = map_of (cmap ?s2) p"
      by (rule entry_untouched [OF assms(1) t2 m(3) _ nw]) auto
    then have "map_of (cmap (run cfg ecs s)) p = Some (None, None)"
      using e2 by (simp add: ecs run_append)
    then show ?thesis by (simp add: record_of_def)
  qed
  show ?thesis
  proof (intro conjI allI impI)
    fix n
    show "usage (stats (run cfg (take n ecs) s))
            = sum_list (map snd (outstanding [] (map snd (take n ecs))))"
      by (rule a)
  next
    fix n
    assume "sum_list (map unat (map snd (outstanding [] (map snd (take n ecs))))) < 2 ^ 64"
    then show "unat (usage (stats (run cfg (take n ecs) s)))
              = sum_list (map unat (map snd (outstanding [] (map snd (take n ecs)))))"
      by (rule b)
  next
    fix n p
    show "map_option leak_size (record_of (cmap (run cfg (take n ecs) s)) p)
            = map_of (outstanding [] (map snd (take n ecs))) p"
      by (rule c)
  next
    fix pre e p post
    assume "ecs = pre @ (e, Forget p) # post \<and> (\<forall>sz. Watch p sz \<notin> set (map snd post))"
    then show "record_of (cmap (run cfg ecs s)) p = None"
      using d [of pre e p post] by simp
  next
    fix pre e p post
    assume "ecs = pre @ (e, Forget p) # post \<and> (\<forall>sz. Watch p sz \<notin> set (map snd post))"
    then show "map_of (cmap (run cfg ecs s)) p = Some (None, None)"
      using d [of pre e p post] by simp
  qed
qed

theorem matched_pairs_accounting_witness:
  "kTraceyEnabled default_config \<and> mutex init_state \<and> \<not> recursive init_state
   \<and> live_records (cmap init_state) = [] \<and> usage (stats init_state) = 0
   \<and> matching [] (map snd pairs_trace)
   \<and> usage (stats (run default_config (take 3 pairs_trace) init_state))
       = sum_list (map snd (outstanding [] (map snd (take 3 pairs_trace))))
   \<and> sum_list (map snd (outstanding [] (map snd (take 3 pairs_trace)))) = 16
   \<and> record_of (cmap (run default_config pairs_trace init_state)) 0x10 = None"
proof -
  have h: "kTraceyEnabled default_config" "mutex init_state" "\<not> recursive init_state"
    "live_records (cmap init_state) = []" "usage (stats init_state) = 0"
    "matching [] (map snd pairs_trace)"
    by (simp_all add: example_defs pairs_trace_def sentinel_def)
  note th = matched_pairs_accounting [OF h]
  have a: "usage (stats (run default_config (take 3 pairs_trace) init_state))
       = sum_list (map snd (outstanding [] (map snd (take 3 pairs_trace))))"
    by (rule th [THEN conjunct1, rule_format])
  have s: "sum_list (map snd (outstanding [] (map snd (take 3 pairs_trace)))) = 16"
    by (simp add: pairs_trace_def)
  have e: "pairs_trace = [(example_env, Watch 0x10 8), (example_env, Watch 0x20 16)]
              @ (example_env, Forget 0x10) # []
           \<and> (\<forall>sz. Watch 0x10 sz \<notin> set (map snd ([] :: (env \<times> call) list)))"
    by (simp add: pairs_trace_def)
  have r: "record_of (cmap (run default_config pairs_trace init_state)) 0x10 = None"
    by (rule th [THEN conjunct2, THEN conjunct2, THEN conjunct2, rule_format, OF e, THEN conjunct1])
  show ?thesis using h a s r by (intro conjI)
qed

subsection \<open>The sums of the report tree\<close>

text \<open>
  Each leak with at least one frame assigns its size, converted to the \<^verbatim>\<open>int\<close> of a node, to
  every node of its path. As long as no path among the leaks of a tree is equal to another or
  the beginning of another (the stacks for the bottom-up tree, the reversed stacks for the
  top-down tree), no assignment meets a leaf that an earlier leak has left, and after
  \<^verbatim>\<open>recalc\<close> the sum of \<^verbatim>\<open>value\<close> over the direct children of the root of that tree is the
  sum of the sizes of these leaks, in 32-bit arithmetic, and as numbers whenever the total is
  below \<open>2^31\<close>.
\<close>

lemma tree_root_sum_for_separate_paths:
  "(prefix_free (map (\<lambda>t. frames (tuple_cs t)) (contributing ts)) \<longrightarrow>
      children_sum (branch bottom_top (recalc (fst (build_trees ts))))
        = sum_list (map (\<lambda>t. ucast (leak_size (tuple_lk t))) (contributing ts))
      \<and> (sum_list (map (\<lambda>t. unat (leak_size (tuple_lk t))) (contributing ts)) < 2 ^ 31 \<longrightarrow>
           sint (children_sum (branch bottom_top (recalc (fst (build_trees ts)))))
             = int (sum_list (map (\<lambda>t. unat (leak_size (tuple_lk t))) (contributing ts)))))
   \<and> (prefix_free (map (\<lambda>t. rev (frames (tuple_cs t))) (contributing ts)) \<longrightarrow>
      children_sum (branch top_bottom (recalc (fst (build_trees ts))))
        = sum_list (map (\<lambda>t. ucast (leak_size (tuple_lk t))) (contributing ts))
      \<and> (sum_list (map (\<lambda>t. unat (leak_size (tuple_lk t))) (contributing ts)) < 2 ^ 31 \<longrightarrow>
           sint (children_sum (branch top_bottom (recalc (fst (build_trees ts)))))
             = int (sum_list (map (\<lambda>t. unat (leak_size (tuple_lk t))) (contributing ts)))))"
proof -
  let ?w = "sum_list (map (\<lambda>t. ucast (leak_size (tuple_lk t))) (contributing ts)) :: 32 word"
  let ?n = "sum_list (map (\<lambda>t. unat (leak_size (tuple_lk t))) (contributing ts))"
  have w0: "wf_tree (Tree 0 [])" by simp
  have c0: "csum (Tree 0 []) = 0" by (simp add: csum_def)
  have fr: "list_all (\<lambda>pv. fresh (fst pv) (Tree 0 [])) (map (\<lambda>x. (g x, h x)) (contributing ts))"
    if "\<And>x. g x = [] \<longleftrightarrow> frames (tuple_cs x) = []" for g :: "tuple \<Rightarrow> path" and h :: "tuple \<Rightarrow> 32 word"
  proof -
    have "fresh (g x) (Tree 0 [])" if "x \<in> set (contributing ts)" for x
    proof -
      have "g x \<noteq> []" using that \<open>\<And>x. g x = [] \<longleftrightarrow> frames (tuple_cs x) = []\<close>
        by (simp add: contributing_def num_frames_def)
      then show ?thesis by (cases "g x") simp_all
    qed
    then show ?thesis by (simp add: list_all_iff)
  qed
  have a: "children_sum (branch bottom_top (recalc (fst (build_trees ts)))) = ?w"
    if "prefix_free (map (\<lambda>t. frames (tuple_cs t)) (contributing ts))"
    using csum_credit_all [OF w0 fr [of "\<lambda>t. frames (tuple_cs t)"], of "\<lambda>x. ucast (leak_size (tuple_lk x))"] that
    by (simp add: branch_sums foldl_credit_leak c0 comp_def)
  have b: "children_sum (branch top_bottom (recalc (fst (build_trees ts)))) = ?w"
    if "prefix_free (map (\<lambda>t. rev (frames (tuple_cs t))) (contributing ts))"
    using csum_credit_all [OF w0 fr [of "\<lambda>t. rev (frames (tuple_cs t))"], of "\<lambda>x. ucast (leak_size (tuple_lk x))"] that
    by (simp add: branch_sums foldl_credit_leak c0 comp_def)
  have n: "sint ?w = int ?n" if "?n < 2 ^ 31"
  proof -
    have "unat ?w = ?n"
      using unat_sum_ucast [of "map (\<lambda>t. leak_size (tuple_lk t)) (contributing ts)"] that
      by (simp add: comp_def)
    then show ?thesis using sint_small [of ?w] that by simp
  qed
  show ?thesis using a b n by simp
qed

lemma tree_root_sum_for_separate_paths_example:
  "prefix_free (map (\<lambda>t. frames (tuple_cs t))
      (contributing [mk_leak 1 10 [0x401000, 0x403000], mk_leak 2 20 [0x401000, 0x402000]]))
   \<and> prefix_free (map (\<lambda>t. rev (frames (tuple_cs t)))
      (contributing [mk_leak 1 10 [0x401000, 0x403000], mk_leak 2 20 [0x401000, 0x402000]]))
   \<and> sum_list (map (\<lambda>t. unat (leak_size (tuple_lk t)))
        (contributing [mk_leak 1 10 [0x401000, 0x403000], mk_leak 2 20 [0x401000, 0x402000]])) < 2 ^ 31
   \<and> sint (children_sum (branch bottom_top (recalc (fst (build_trees
        [mk_leak 1 10 [0x401000, 0x403000], mk_leak 2 20 [0x401000, 0x402000]])))))
      = int (sum_list (map (\<lambda>t. unat (leak_size (tuple_lk t)))
          (contributing [mk_leak 1 10 [0x401000, 0x403000], mk_leak 2 20 [0x401000, 0x402000]])))
   \<and> sint (children_sum (branch top_bottom (recalc (fst (build_trees
        [mk_leak 1 10 [0x401000, 0x403000], mk_leak 2 20 [0x401000, 0x402000]])))))
      = int (sum_list (map (\<lambda>t. unat (leak_size (tuple_lk t)))
          (contributing [mk_leak 1 10 [0x401000, 0x403000], mk_leak 2 20 [0x401000, 0x402000]])))
   \<and> sum_list (map (\<lambda>t. unat (leak_size (tuple_lk t)))
          (contributing [mk_leak 1 10 [0x401000, 0x403000], mk_leak 2 20 [0x401000, 0x402000]])) = 30"
proof -
  have h: "prefix_free (map (\<lambda>t. frames (tuple_cs t))
      (contributing [mk_leak 1 10 [0x401000, 0x403000], mk_leak 2 20 [0x401000, 0x402000]]))"
    "prefix_free (map (\<lambda>t. rev (frames (tuple_cs t)))
      (contributing [mk_leak 1 10 [0x401000, 0x403000], mk_leak 2 20 [0x401000, 0x402000]]))"
    by (simp_all add: contributing_def mk_leak_def num_frames_def)
  have s: "sum_list (map (\<lambda>t. unat (leak_size (tuple_lk t)))
          (contributing [mk_leak 1 10 [0x401000, 0x403000], mk_leak 2 20 [0x401000, 0x402000]])) = 30"
    by (simp add: contributing_def mk_leak_def num_frames_def)
  then have l: "sum_list (map (\<lambda>t. unat (leak_size (tuple_lk t)))
        (contributing [mk_leak 1 10 [0x401000, 0x403000], mk_leak 2 20 [0x401000, 0x402000]])) < 2 ^ 31"
    by simp
  from tree_root_sum_for_separate_paths
         [of "[mk_leak 1 10 [0x401000, 0x403000], mk_leak 2 20 [0x401000, 0x402000]]"]
  show ?thesis using h s l by blast
qed

text \<open>Two allocations of 10 and 20 bytes made from one call site: state, trees of frames.\<close>

lemma shared_site_state:
  "run default_config shared_site_trace init_state
     = \<lparr> mutex = True, recursive = False,
         cmap = [(1, Some \<lparr> leak_size = 10, leak_id = 1 \<rparr>, Some \<lparr> frames = [0x401000, 0x402000] \<rparr>),
                 (2, Some \<lparr> leak_size = 20, leak_id = 2 \<rparr>, Some \<lparr> frames = [0x401000, 0x402000] \<rparr>)],
         stats = \<lparr> leaks = 2, usage = 30, peak = 30 \<rparr>,
         timestamp_id = 0, id_static = 2, once = True \<rparr>"
  by (simp add: shared_site_trace_def call_defs example_defs)

lemma shared_site_trees:
  "build_trees
     [\<lparr> tuple_addr = 1, tuple_lk = \<lparr> leak_size = 10, leak_id = 1 \<rparr>,
        tuple_cs = \<lparr> frames = [0x401000, 0x402000] \<rparr> \<rparr>,
      \<lparr> tuple_addr = 2, tuple_lk = \<lparr> leak_size = 20, leak_id = 2 \<rparr>,
        tuple_cs = \<lparr> frames = [0x401000, 0x402000] \<rparr> \<rparr>]
   = (Tree 0 [(top_bottom, Tree 0 [(0x402000, Tree 20 [(0x401000, Tree 20 [])])]),
              (bottom_top, Tree 0 [(0x401000, Tree 20 [(0x402000, Tree 20 [])])])],
      [0x401000, 0x402000])"
  by (simp add: build_trees_def leak_step_def frame_step_def num_frames_def
      assign_child_def insert_tree_def set_tree_def bottom_top_def top_bottom_def
      upt_rec [of _ "numeral _"] upt_rec [of _ "Suc _"] Let_def)

text \<open>
  C6. The claim is that each leak adds its size once to every node of its path, so that after
  \<^verbatim>\<open>recalc\<close> the values of the direct children of a tree root sum to the sizes of all the
  leaks of the tree, also when two leaks share their whole path. In the source a leak assigns
  its size to the nodes of its path (the templated \<^verbatim>\<open>operator=\<close> calls \<^verbatim>\<open>set\<close>), and
  \<^verbatim>\<open>recalc\<close> keeps the value of a leaf and recomputes every other node from its children: of
  the leaks with one and the same stack, only the last is left in the tree. After
  \<^verbatim>\<open>watch(0x1,10); watch(0x2,20)\<close> from one call site, \<^verbatim>\<open>_report\<close> collects the two leaks and
  30 wasted bytes, which the header of its file says, while the children of either tree root
  sum to 20, and 20 is what the file shows at every node.
\<close>

theorem shared_call_site_sums_to_last_leak:
  "(let s = run default_config shared_site_trace init_state;
        filtered = snd (collect_leaks (timestamp_id s) (cmap s));
        tree = recalc (fst (build_trees filtered))
    in map (\<lambda>t. (tuple_addr t, leak_size (tuple_lk t), frames (tuple_cs t))) filtered
         = [(1, 10, [0x401000, 0x402000]), (2, 20, [0x401000, 0x402000])]
     \<and> fst (collect_leaks (timestamp_id s) (cmap s)) = 30
     \<and> children_sum (branch bottom_top tree) = 20
     \<and> children_sum (branch top_bottom tree) = 20
     \<and> file_text (container_report example_env (timestamp_id s) (cmap s))
         = ''<html><body><xmp>''
           @ says @ ''generated with tracey-0.20.b (https://github.com/r-lyeh/tracey)'' @ LF
           @ says @ ''best viewed on foldable text editor (like SublimeText2) with tabs=2sp and no word-wrap'' @ LF
           @ says @ ''error, 2 leaks found; 30 bytes wasted ('' @ [CHR 0x27] @ ''lame'' @ [CHR 0x27] @ '' score)'' @ LF
           @ ''[2] top-bottom normal tree (useful to find leak beginnings) (20)'' @ LF
           @ TAB @ ''[1] fn (20)'' @ LF
           @ TAB @ TAB @ ''[1] fn (20)'' @ LF
           @ ''[2] bottom-top normal tree (useful to find leak endings) (20)'' @ LF
           @ TAB @ ''[1] fn (20)'' @ LF
           @ TAB @ TAB @ ''[1] fn (20)'' @ LF
           @ ''</xmp></body></html>'')"
proof -
  have c: "collect_leaks 0
      [(1, Some \<lparr> leak_size = 10, leak_id = 1 \<rparr>, Some \<lparr> frames = [0x401000, 0x402000] \<rparr>),
       (2, Some \<lparr> leak_size = 20, leak_id = 2 \<rparr>, Some \<lparr> frames = [0x401000, 0x402000] \<rparr>)]
     = (30, [\<lparr> tuple_addr = 1, tuple_lk = \<lparr> leak_size = 10, leak_id = 1 \<rparr>,
               tuple_cs = \<lparr> frames = [0x401000, 0x402000] \<rparr> \<rparr>,
             \<lparr> tuple_addr = 2, tuple_lk = \<lparr> leak_size = 20, leak_id = 2 \<rparr>,
               tuple_cs = \<lparr> frames = [0x401000, 0x402000] \<rparr> \<rparr>])"
    by simp
  have t: "children_sum (branch bottom_top (recalc
             (Tree 0 [(top_bottom, Tree 0 [(0x402000, Tree 20 [(0x401000, Tree 20 [])])]),
                      (bottom_top, Tree 0 [(0x401000, Tree 20 [(0x402000, Tree 20 [])])])]))) = 20"
    "children_sum (branch top_bottom (recalc
             (Tree 0 [(top_bottom, Tree 0 [(0x402000, Tree 20 [(0x401000, Tree 20 [])])]),
                      (bottom_top, Tree 0 [(0x401000, Tree 20 [(0x402000, Tree 20 [])])])]))) = 20"
    by (simp_all add: branch_def children_sum_def bottom_top_def top_bottom_def)
  have p: "print
      (make_translate example_env [0x401000, 0x402000] (resolve_stack_trace example_env [0x401000, 0x402000]))
      0
      (recalc (Tree 0 [(top_bottom, Tree 0 [(0x402000, Tree 20 [(0x401000, Tree 20 [])])]),
                       (bottom_top, Tree 0 [(0x401000, Tree 20 [(0x402000, Tree 20 [])])])]))
    = ''[2] top-bottom normal tree (useful to find leak beginnings) (20)'' @ LF
           @ TAB @ ''[1] fn (20)'' @ LF
           @ TAB @ TAB @ ''[1] fn (20)'' @ LF
           @ ''[2] bottom-top normal tree (useful to find leak endings) (20)'' @ LF
           @ TAB @ ''[1] fn (20)'' @ LF
           @ TAB @ TAB @ ''[1] fn (20)'' @ LF"
    by (simp add: make_translate_def example_env_def label_def bottom_top_def top_bottom_def
         show_int_def show_nat.simps digit_char_def Let_def)
  have hd: "report_header 2 30 ''lame'' =
     ''<html><body><xmp>'' @ says @ ''generated with tracey-0.20.b (https://github.com/r-lyeh/tracey)'' @ LF
     @ says @ ''best viewed on foldable text editor (like SublimeText2) with tabs=2sp and no word-wrap'' @ LF
     @ says @ ''error, 2 leaks found; 30 bytes wasted ('' @ [CHR 0x27] @ ''lame'' @ [CHR 0x27] @ '' score)'' @ LF"
    by (simp add: report_header_def safefmt_def safefmt_step_def says_def LF_def version_def url_def
        show_nat.simps digit_char_def)
  have sc: "report_score 0
      [(1, Some \<lparr> leak_size = 10, leak_id = 1 \<rparr>, Some \<lparr> frames = [0x401000, 0x402000] \<rparr>),
       (2, Some \<lparr> leak_size = 20, leak_id = 2 \<rparr>, Some \<lparr> frames = [0x401000, 0x402000] \<rparr>)] = ''lame''"
    by (simp add: report_score_def leaks_pct_def score_of_def)
  have f: "file_text (container_report example_env 0
      [(1, Some \<lparr> leak_size = 10, leak_id = 1 \<rparr>, Some \<lparr> frames = [0x401000, 0x402000] \<rparr>),
       (2, Some \<lparr> leak_size = 20, leak_id = 2 \<rparr>, Some \<lparr> frames = [0x401000, 0x402000] \<rparr>)])
     = report_header 2 30 ''lame''
       @ print
      (make_translate example_env [0x401000, 0x402000] (resolve_stack_trace example_env [0x401000, 0x402000]))
      0
      (recalc (Tree 0 [(top_bottom, Tree 0 [(0x402000, Tree 20 [(0x401000, Tree 20 [])])]),
                       (bottom_top, Tree 0 [(0x401000, Tree 20 [(0x402000, Tree 20 [])])])]))
       @ ''</xmp></body></html>''"
    by (simp add: container_report_def c sc shared_site_trees report_body_def example_env_def Let_def
          numeral_2_eq_2 [symmetric] del: collect_leaks.simps recalc.simps)
  show ?thesis
    unfolding Let_def shared_site_state
    by (simp add: c shared_site_trees t f hd p del: recalc.simps)
qed

end
